theory Spec2Isabelle
  imports Main "HOL-Library.Word"
begin

section \<open>JavaScript strings and values\<close>

text \<open>
  A JavaScript string is a sequence of UTF-16 code units.  String literals of the
  source are written \<open>js ''...''\<close>.
\<close>

type_synonym jschar = "16 word"
type_synonym jsstring = "jschar list"

definition js :: "string \<Rightarrow> jsstring" where
  "js s = map of_char s"

subsection \<open>String.prototype.trim, split and replace\<close>

text \<open>The code units \<open>trim\<close> removes: ECMAScript's WhiteSpace and LineTerminator.\<close>

definition is_space :: "jschar \<Rightarrow> bool" where
  "is_space c \<longleftrightarrow>
     c \<in> {0x09, 0x0A, 0x0B, 0x0C, 0x0D, 0x20, 0xA0, 0x1680, 0x2028, 0x2029, 0x202F, 0x205F,
          0x3000, 0xFEFF} \<or> (0x2000 \<le> c \<and> c \<le> 0x200A)"

definition trim :: "jsstring \<Rightarrow> jsstring" where
  "trim s = rev (dropWhile is_space (rev (dropWhile is_space s)))"

text \<open>\<open>s.split(',')\<close>: the pieces between commas; never the empty array.\<close>

fun split_comma :: "jsstring \<Rightarrow> jsstring list" where
  "split_comma [] = [[]]"
| "split_comma (c # cs) =
     (if c = 0x2C then [] # split_comma cs
      else (case split_comma cs of [] \<Rightarrow> [[c]] | p # ps \<Rightarrow> (c # p) # ps))"

text \<open>
  \<open>raw.replace(/```json|```/gi, '')\<close>: scanning from the left, at each position the
  alternatives are tried in order (first the fence with the word, then the bare fence);
  a match is removed and the scan goes on after it.  The flag \<open>i\<close> makes the letters
  match in either case.
\<close>

definition lower_ascii :: "jschar \<Rightarrow> jschar" where
  "lower_ascii c = (if 0x41 \<le> c \<and> c \<le> 0x5A then c + 0x20 else c)"

definition matches_ci :: "jsstring \<Rightarrow> jsstring \<Rightarrow> bool" where
  "matches_ci pat s \<longleftrightarrow> length pat \<le> length s \<and> map lower_ascii (take (length pat) s) = pat"

function strip_fences :: "jsstring \<Rightarrow> jsstring" where
  "strip_fences [] = []"
| "strip_fences (c # cs) =
     (if matches_ci (js ''```json'') (c # cs) then strip_fences (drop 7 (c # cs))
      else if matches_ci (js ''```'') (c # cs) then strip_fences (drop 3 (c # cs))
      else c # strip_fences cs)"
  by pat_completeness auto
termination
  by (relation "measure length") auto


subsection \<open>Values\<close>

text \<open>
  The values that \<open>JSON.parse\<close> produces, and \<open>undefined\<close>.  A number is kept as the
  decimal it was written as, \<open>JNum m e\<close> standing for \<open>m * 10 ^ e\<close>; an object is the list
  of its members in insertion order, with distinct keys.
\<close>

datatype jsval =
    JUndefined
  | JNull
  | JBool bool
  | JNum int int
  | JStr jsstring
  | JArr "jsval list"
  | JObj "(jsstring \<times> jsval) list"

text \<open>Setting a property: an existing key keeps its place and takes the new value.\<close>

fun obj_put :: "(jsstring \<times> jsval) list \<Rightarrow> jsstring \<Rightarrow> jsval \<Rightarrow> (jsstring \<times> jsval) list" where
  "obj_put [] k v = [(k, v)]"
| "obj_put ((k', v') # ms) k v = (if k' = k then (k, v) # ms else (k', v') # obj_put ms k v)"

subsection \<open>JSON.parse\<close>

text \<open>
  \<open>JSON.parse\<close> belongs to the runtime, not to the repository; it is modelled after
  ECMA-404: a tokeniser, then a pushdown automaton over the tokens.  \<open>None\<close> is the
  \<open>SyntaxError\<close> it throws.
\<close>

datatype token = TLBrace | TRBrace | TLBracket | TRBracket | TColon | TComma | TLit jsval

definition json_ws :: "jschar \<Rightarrow> bool" where
  "json_ws c \<longleftrightarrow> c \<in> {0x20, 0x09, 0x0A, 0x0D}"

definition is_digit :: "jschar \<Rightarrow> bool" where
  "is_digit c \<longleftrightarrow> 0x30 \<le> c \<and> c \<le> 0x39"

definition digits_value :: "jsstring \<Rightarrow> int" where
  "digits_value ds = foldl (\<lambda>n d. 10 * n + (uint d - 0x30)) 0 ds"

definition hex_value :: "jschar \<Rightarrow> nat option" where
  "hex_value c =
     (if 0x30 \<le> c \<and> c \<le> 0x39 then Some (unat c - 0x30)
      else if 0x41 \<le> c \<and> c \<le> 0x46 then Some (unat c - 0x41 + 10)
      else if 0x61 \<le> c \<and> c \<le> 0x66 then Some (unat c - 0x61 + 10)
      else None)"

definition hex4 :: "jsstring \<Rightarrow> jschar option" where
  "hex4 hs =
     (case map hex_value hs of
        [Some a, Some b, Some c, Some d] \<Rightarrow> Some (of_nat (((a * 16 + b) * 16 + c) * 16 + d))
      | _ \<Rightarrow> None)"

definition unescape :: "jschar \<Rightarrow> jschar option" where
  "unescape e =
     (if e = 0x22 \<or> e = 0x5C \<or> e = 0x2F then Some e
      else if e = 0x62 then Some 0x08
      else if e = 0x66 then Some 0x0C
      else if e = 0x6E then Some 0x0A
      else if e = 0x72 then Some 0x0D
      else if e = 0x74 then Some 0x09
      else None)"

definition cons_char :: "jschar \<Rightarrow> (jsstring \<times> jsstring) option \<Rightarrow> (jsstring \<times> jsstring) option" where
  "cons_char c r = (case r of None \<Rightarrow> None | Some (s, rest) \<Rightarrow> Some (c # s, rest))"

text \<open>The characters of a string after its opening quote: the string and what follows
  the closing quote.\<close>

fun lex_string :: "jsstring \<Rightarrow> (jsstring \<times> jsstring) option" where
  "lex_string [] = None"
| "lex_string (c # cs) =
     (if c = 0x22 then Some ([], cs)
      else if c = 0x5C then
        (case cs of
           [] \<Rightarrow> None
         | e # r \<Rightarrow>
             if e = 0x75 then
               (case hex4 (take 4 r) of
                  None \<Rightarrow> None
                | Some u \<Rightarrow> cons_char u (lex_string (drop 4 r)))
             else
               (case unescape e of
                  None \<Rightarrow> None
                | Some u \<Rightarrow> cons_char u (lex_string r)))
      else if c < 0x20 then None
      else cons_char c (lex_string cs))"

text \<open>A number: \<open>-? (0 | [1-9][0-9]*) (. [0-9]+)? ([eE] [+-]? [0-9]+)?\<close>.\<close>

definition lex_minus :: "jsstring \<Rightarrow> bool \<times> jsstring" where
  "lex_minus cs = (case cs of [] \<Rightarrow> (False, cs) | c # r \<Rightarrow> if c = 0x2D then (True, r) else (False, cs))"

definition lex_fraction :: "jsstring \<Rightarrow> (jsstring \<times> jsstring) option" where
  "lex_fraction cs =
     (case cs of
        [] \<Rightarrow> Some ([], cs)
      | c # r \<Rightarrow>
          if c = 0x2E then
            (if takeWhile is_digit r = [] then None
             else Some (takeWhile is_digit r, dropWhile is_digit r))
          else Some ([], cs))"

definition lex_sign :: "jsstring \<Rightarrow> int \<times> jsstring" where
  "lex_sign cs =
     (case cs of
        [] \<Rightarrow> (1, cs)
      | c # r \<Rightarrow> if c = 0x2D then (- 1, r) else if c = 0x2B then (1, r) else (1, cs))"

definition lex_exponent :: "jsstring \<Rightarrow> (int \<times> jsstring) option" where
  "lex_exponent cs =
     (case cs of
        [] \<Rightarrow> Some (0, cs)
      | c # r \<Rightarrow>
          if c = 0x65 \<or> c = 0x45 then
            (let (sg, r') = lex_sign r
             in if takeWhile is_digit r' = [] then None
                else Some (sg * digits_value (takeWhile is_digit r'), dropWhile is_digit r'))
          else Some (0, cs))"

definition lex_number :: "jsstring \<Rightarrow> (jsval \<times> jsstring) option" where
  "lex_number cs =
     (let (neg, cs1) = lex_minus cs;
          ds = takeWhile is_digit cs1
      in if ds = [] \<or> (length ds > 1 \<and> hd ds = 0x30) then None
         else
           (case lex_fraction (dropWhile is_digit cs1) of
              None \<Rightarrow> None
            | Some (fs, cs3) \<Rightarrow>
                (case lex_exponent cs3 of
                   None \<Rightarrow> None
                 | Some (ex, cs4) \<Rightarrow>
                     Some (JNum ((if neg then - 1 else 1) * digits_value (ds @ fs))
                                (ex - int (length fs)), cs4))))"

definition cons_token :: "token \<Rightarrow> token list option \<Rightarrow> token list option" where
  "cons_token t r = (case r of None \<Rightarrow> None | Some ts \<Rightarrow> Some (t # ts))"

text \<open>The tokeniser recurses on what a string or a number leaves unread, which is
  shorter than what it was given: the next lemmas are its termination argument.\<close>

lemma cons_char_shorter:
  "cons_char c r = Some (s, rest) \<Longrightarrow> \<exists>s'. r = Some (s', rest)"
  by (cases r) (auto simp: cons_char_def)

lemma lex_string_shorter: "lex_string cs = Some (s, rest) \<Longrightarrow> length rest < length cs"
proof (induction cs arbitrary: s rule: lex_string.induct)
  case 1
  then show ?case by simp
next
  case (2 c cs)
  show ?case
  proof (cases "c = 0x22")
    case True
    then show ?thesis using "2.prems" by simp
  next
    case q: False
    show ?thesis
    proof (cases "c = 0x5C")
      case False
      then have "c \<ge> 0x20" and "cons_char c (lex_string cs) = Some (s, rest)"
        using q "2.prems" by (auto split: if_splits)
      then obtain s' where "lex_string cs = Some (s', rest)"
        using cons_char_shorter by blast
      then show ?thesis using "2.IH"(3) [OF q False] \<open>c \<ge> 0x20\<close> by fastforce
    next
      case True
      then obtain e r where cs: "cs = e # r"
        using "2.prems" q by (cases cs) auto
      show ?thesis
      proof (cases "e = 0x75")
        case u: True
        then obtain x where h: "hex4 (take 4 r) = Some x"
          and "cons_char x (lex_string (drop 4 r)) = Some (s, rest)"
          using "2.prems" q True cs by (auto split: option.splits)
        then obtain s' where "lex_string (drop 4 r) = Some (s', rest)"
          using cons_char_shorter by blast
        then have "length rest < length (drop 4 r)"
          using "2.IH"(1) [OF q True cs u h] by blast
        then show ?thesis using cs by simp
      next
        case u: False
        then obtain x where h: "unescape e = Some x"
          and "cons_char x (lex_string r) = Some (s, rest)"
          using "2.prems" q True cs by (auto split: option.splits)
        then obtain s' where "lex_string r = Some (s', rest)"
          using cons_char_shorter by blast
        then have "length rest < length r"
          using "2.IH"(2) [OF q True cs u h] by blast
        then show ?thesis using cs by simp
      qed
    qed
  qed
qed

lemma lex_minus_le: "length (snd (lex_minus cs)) \<le> length cs"
  by (auto simp: lex_minus_def split: list.splits)

lemma lex_sign_le: "length (snd (lex_sign cs)) \<le> length cs"
  by (auto simp: lex_sign_def split: list.splits)

lemma length_dropWhile_less: "takeWhile P xs \<noteq> [] \<Longrightarrow> length (dropWhile P xs) < length xs"
  by (cases xs) (auto simp: length_dropWhile_le le_imp_less_Suc split: if_splits)

lemma lex_fraction_le: "lex_fraction cs = Some (fs, rest) \<Longrightarrow> length rest \<le> length cs"
  by (auto simp: lex_fraction_def length_dropWhile_le le_SucI split: list.splits if_splits)

lemma lex_exponent_le:
  assumes a: "lex_exponent cs = Some (ex, rest)"
  shows "length rest \<le> length cs"
proof (cases cs)
  case Nil
  then show ?thesis using a by (simp add: lex_exponent_def)
next
  case (Cons c r)
  show ?thesis
  proof (cases "c = 0x65 \<or> c = 0x45")
    case False
    then show ?thesis using a Cons by (auto simp: lex_exponent_def)
  next
    case True
    then have "rest = dropWhile is_digit (snd (lex_sign r))"
      using a Cons by (auto simp: lex_exponent_def split_beta Let_def split: if_splits)
    then have "length rest \<le> length (snd (lex_sign r))"
      by (simp add: length_dropWhile_le)
    then show ?thesis using lex_sign_le [of r] Cons by simp
  qed
qed

lemma lex_number_shorter:
  assumes a: "lex_number cs = Some (v, rest)"
  shows "length rest < length cs"
proof -
  obtain neg cs1 where m: "lex_minus cs = (neg, cs1)" by (cases "lex_minus cs")
  have d: "takeWhile is_digit cs1 \<noteq> []"
    using a m by (auto simp: lex_number_def Let_def split: if_splits)
  obtain fs cs3 where f: "lex_fraction (dropWhile is_digit cs1) = Some (fs, cs3)"
    using a m by (auto simp: lex_number_def Let_def split: if_splits option.splits)
  obtain ex where e: "lex_exponent cs3 = Some (ex, rest)"
    using a m f by (auto simp: lex_number_def Let_def split: if_splits option.splits)
  have "length rest \<le> length cs3" using lex_exponent_le [OF e] .
  also have "\<dots> \<le> length (dropWhile is_digit cs1)" using lex_fraction_le [OF f] .
  also have "\<dots> < length cs1" using length_dropWhile_less [OF d] .
  also have "\<dots> \<le> length cs" using lex_minus_le [of cs] m by simp
  finally show ?thesis .
qed

text \<open>The tokeniser.\<close>

function tokenize :: "jsstring \<Rightarrow> token list option" where
  "tokenize [] = Some []"
| "tokenize (c # cs) =
     (if json_ws c then tokenize cs
      else if c = 0x7B then cons_token TLBrace (tokenize cs)
      else if c = 0x7D then cons_token TRBrace (tokenize cs)
      else if c = 0x5B then cons_token TLBracket (tokenize cs)
      else if c = 0x5D then cons_token TRBracket (tokenize cs)
      else if c = 0x3A then cons_token TColon (tokenize cs)
      else if c = 0x2C then cons_token TComma (tokenize cs)
      else if c = 0x22 then
        (case lex_string cs of
           None \<Rightarrow> None
         | Some (s, rest) \<Rightarrow> cons_token (TLit (JStr s)) (tokenize rest))
      else if c = 0x2D \<or> is_digit c then
        (case lex_number (c # cs) of
           None \<Rightarrow> None
         | Some (v, rest) \<Rightarrow> cons_token (TLit v) (tokenize rest))
      else if take 4 (c # cs) = js ''true'' then cons_token (TLit (JBool True)) (tokenize (drop 3 cs))
      else if take 5 (c # cs) = js ''false'' then cons_token (TLit (JBool False)) (tokenize (drop 4 cs))
      else if take 4 (c # cs) = js ''null'' then cons_token (TLit JNull) (tokenize (drop 3 cs))
      else None)"
  by pat_completeness auto
termination
proof (relation "measure length", goal_cases)
  case (9 c cs x2 s rest)
  then show ?case using lex_string_shorter [of cs s rest] by simp
next
  case (10 c cs x2 v rest)
  then show ?case using lex_number_shorter [of "c # cs" v rest] by simp
qed auto

text \<open>
  The automaton.  The state holds the container being read (its elements or members so
  far, elements in reverse); the stack holds the containers around it, each waiting
  for the value being read.
\<close>

datatype frame = InArray "jsval list" | InObject "(jsstring \<times> jsval) list" jsstring

datatype pstate =
    Value
  | ArrStart
  | AfterElem "jsval list"
  | ObjStart
  | Key "(jsstring \<times> jsval) list"
  | Colon "(jsstring \<times> jsval) list" jsstring
  | AfterMember "(jsstring \<times> jsval) list"
  | Done jsval

fun complete :: "jsval \<Rightarrow> frame list \<Rightarrow> pstate \<times> frame list" where
  "complete v [] = (Done v, [])"
| "complete v (InArray acc # st) = (AfterElem (v # acc), st)"
| "complete v (InObject ms k # st) = (AfterMember (obj_put ms k v), st)"

fun start_value :: "frame list \<Rightarrow> token \<Rightarrow> (pstate \<times> frame list) option" where
  "start_value st (TLit v) = Some (complete v st)"
| "start_value st TLBracket = Some (ArrStart, st)"
| "start_value st TLBrace = Some (ObjStart, st)"
| "start_value st _ = None"

fun step :: "pstate \<Rightarrow> frame list \<Rightarrow> token \<Rightarrow> (pstate \<times> frame list) option" where
  "step Value st t = start_value st t"
| "step ArrStart st TRBracket = Some (complete (JArr []) st)"
| "step ArrStart st t = start_value (InArray [] # st) t"
| "step (AfterElem acc) st TComma = Some (Value, InArray acc # st)"
| "step (AfterElem acc) st TRBracket = Some (complete (JArr (rev acc)) st)"
| "step ObjStart st TRBrace = Some (complete (JObj []) st)"
| "step ObjStart st (TLit (JStr k)) = Some (Colon [] k, st)"
| "step (Key ms) st (TLit (JStr k)) = Some (Colon ms k, st)"
| "step (Colon ms k) st TColon = Some (Value, InObject ms k # st)"
| "step (AfterMember ms) st TComma = Some (Key ms, st)"
| "step (AfterMember ms) st TRBrace = Some (complete (JObj ms) st)"
| "step _ _ _ = None"

fun parse_tokens :: "pstate \<Rightarrow> frame list \<Rightarrow> token list \<Rightarrow> jsval option" where
  "parse_tokens s st [] = (case s of Done v \<Rightarrow> Some v | _ \<Rightarrow> None)"
| "parse_tokens s st (t # ts) =
     (case step s st t of None \<Rightarrow> None | Some (s', st') \<Rightarrow> parse_tokens s' st' ts)"

definition JSON_parse :: "jsstring \<Rightarrow> jsval option" where
  "JSON_parse s = (case tokenize s of None \<Rightarrow> None | Some ts \<Rightarrow> parse_tokens Value [] ts)"

section \<open>Configuration (src/api/rank.js, lines 3-11)\<close>

text \<open>
  The module reads its configuration once: the two rate-limit numbers (after
  \<open>Number(... || default)\<close>), the raw \<open>ALLOWED_ORIGIN\<close> string (after \<open>|| ''\<close>), the API
  credential (read from the environment on every request) and the catalog that
  \<open>require('../recipes-data.js')\<close> returns.  The catalog file is not part of the
  sources at hand, so it is a field of the configuration.  Timestamps and the two
  numbers are integers (what \<open>Date.now()\<close> returns).
\<close>

record recipe =
  recipe_id :: jsstring
  recipe_title :: jsstring
  recipe_details :: jsstring

record config =
  RATE_LIMIT_WINDOW_MS :: int
  RATE_LIMIT_MAX :: int
  ALLOWED_ORIGIN :: jsstring
  OPENAI_API_KEY :: "jsstring option"
  RECIPES :: "recipe list"

section \<open>The rate limiter (src/api/rank.js, lines 13 and 40-50)\<close>

text \<open>\<open>rateLimitStore\<close> is a \<open>Map\<close> from client keys to arrays of timestamps.\<close>

type_synonym store = "jsstring \<rightharpoonup> int list"

text \<open>\<open>rateLimitStore.get(key) || []\<close>: an array is always truthy, so only a missing key
  gives the empty array.\<close>

definition entries_of :: "store \<Rightarrow> jsstring \<Rightarrow> int list" where
  "entries_of st key = (case st key of None \<Rightarrow> [] | Some es \<Rightarrow> es)"

definition recent_of :: "config \<Rightarrow> int \<Rightarrow> int list \<Rightarrow> int list" where
  "recent_of cfg now es = filter (\<lambda>ts. now - ts < RATE_LIMIT_WINDOW_MS cfg) es"

definition takeRateLimitSlot :: "config \<Rightarrow> store \<Rightarrow> jsstring \<Rightarrow> int \<Rightarrow> bool \<times> store" where
  "takeRateLimitSlot cfg st key now =
     (let entries = entries_of st key;
          recent = recent_of cfg now entries
      in if int (length recent) \<ge> RATE_LIMIT_MAX cfg
         then (False, st(key \<mapsto> recent))
         else (True, st(key \<mapsto> recent @ [now])))"

text \<open>A series of admission checks by one client, in order: the answers and the
  store left behind.\<close>

fun attempts :: "config \<Rightarrow> store \<Rightarrow> jsstring \<Rightarrow> int list \<Rightarrow> bool list \<times> store" where
  "attempts cfg st key [] = ([], st)"
| "attempts cfg st key (now # nows) =
     (let (ok, st') = takeRateLimitSlot cfg st key now;
          (oks, st'') = attempts cfg st' key nows
      in (ok # oks, st''))"

text \<open>A series of admission checks by any clients, starting from the store the
  module creates (\<open>new Map()\<close>): the stores the process can be in.\<close>

fun checks :: "config \<Rightarrow> store \<Rightarrow> (jsstring \<times> int) list \<Rightarrow> store" where
  "checks cfg st [] = st"
| "checks cfg st ((key, now) # cs) = checks cfg (snd (takeRateLimitSlot cfg st key now)) cs"

definition reachable_store :: "config \<Rightarrow> (jsstring \<times> int) list \<Rightarrow> store" where
  "reachable_store cfg cs = checks cfg Map.empty cs"

text \<open>The attempts of a burst fall within one window: every later attempt is less
  than the window width after every earlier one.\<close>

definition within_one_window :: "config \<Rightarrow> int list \<Rightarrow> bool" where
  "within_one_window cfg nows =
     (\<forall>j < length nows. \<forall>i < j. nows ! j - nows ! i < RATE_LIMIT_WINDOW_MS cfg)"

subsection \<open>Truthiness, property reads and exceptions\<close>

text \<open>
  A number read by \<open>JSON.parse\<close> is falsy when the double it becomes is zero: when it
  is zero, or so small that it rounds to zero (at most \<open>2 ^ -1075\<close> in size).
\<close>

definition number_truthy :: "int \<Rightarrow> int \<Rightarrow> bool" where
  "number_truthy m e \<longleftrightarrow>
     m \<noteq> 0 \<and> (0 \<le> e \<or> 10 ^ nat (- e) < \<bar>m\<bar> * 2 ^ 1075)"

fun truthy :: "jsval \<Rightarrow> bool" where
  "truthy JUndefined = False"
| "truthy JNull = False"
| "truthy (JBool b) = b"
| "truthy (JNum m e) = number_truthy m e"
| "truthy (JStr s) = (s \<noteq> [])"
| "truthy (JArr _) = True"
| "truthy (JObj _) = True"

text \<open>An exception carries its \<open>message\<close>; the text of a message the engine writes is
  the engine's own and stands here in a fixed wording.\<close>

datatype exn = TypeError jsstring | SyntaxError jsstring | Failure jsstring

fun message :: "exn \<Rightarrow> jsstring" where
  "message (TypeError m) = m"
| "message (SyntaxError m) = m"
| "message (Failure m) = m"

text \<open>
  \<open>v.name\<close> for the names the handler reads (\<open>query\<close>, \<open>choices\<close>, \<open>message\<close>,
  \<open>content\<close>, \<open>primary\<close>, \<open>secondary\<close>), none of which a built-in prototype defines:
  an object gives its member or \<open>undefined\<close>, \<open>null\<close> and \<open>undefined\<close> throw, every
  other value gives \<open>undefined\<close>.
\<close>

definition get_member :: "(jsstring \<times> jsval) list \<Rightarrow> jsstring \<Rightarrow> jsval" where
  "get_member ms k = (case map_of ms k of None \<Rightarrow> JUndefined | Some v \<Rightarrow> v)"

fun get_prop :: "jsval \<Rightarrow> jsstring \<Rightarrow> exn + jsval" where
  "get_prop JUndefined k = Inl (TypeError (js ''Cannot read properties of undefined''))"
| "get_prop JNull k = Inl (TypeError (js ''Cannot read properties of null''))"
| "get_prop (JObj ms) k = Inr (get_member ms k)"
| "get_prop _ k = Inr JUndefined"

text \<open>\<open>v?.name\<close> and \<open>v?.[0]\<close>: \<open>undefined\<close> when \<open>v\<close> is \<open>null\<close> or \<open>undefined\<close>.\<close>

fun opt_prop :: "jsval \<Rightarrow> jsstring \<Rightarrow> jsval" where
  "opt_prop (JObj ms) k = get_member ms k"
| "opt_prop _ k = JUndefined"

fun opt_first :: "jsval \<Rightarrow> jsval" where
  "opt_first (JArr []) = JUndefined"
| "opt_first (JArr (x # xs)) = x"
| "opt_first (JStr []) = JUndefined"
| "opt_first (JStr (c # cs)) = JStr [c]"
| "opt_first (JObj ms) = get_member ms (js ''0'')"
| "opt_first _ = JUndefined"

section \<open>Requests and replies\<close>

text \<open>
  What the handler reads of \<open>req\<close>: the method, the headers (a header is a string or,
  for a repeated one, an array of strings; a missing \<open>headers\<close> object reads like an
  empty one), the peer address of the socket, \<open>req.body\<close> (\<open>JUndefined\<close> when there is
  none) and the stream of body chunks behind \<open>req.on\<close>.
\<close>

datatype hval = HStr jsstring | HArr "jsstring list"

datatype body_stream = NotReadable | Ends "jsstring list" | NeverEnds

record request =
  req_method :: "jsstring option"
  req_headers :: "jsstring \<rightharpoonup> hval"
  remoteAddress :: "jsstring option"
  req_body :: jsval
  req_stream :: body_stream

fun truthy_h :: "hval option \<Rightarrow> bool" where
  "truthy_h None = False"
| "truthy_h (Some (HStr s)) = (s \<noteq> [])"
| "truthy_h (Some (HArr _)) = True"

text \<open>
  What the handler may call on \<open>res\<close> (each is tested with \<open>typeof ... === 'function'\<close>),
  and what it has done to it: the status set, the headers set in order, and the bodies
  handed to \<open>res.json\<close>, \<open>res.send\<close> or \<open>res.end\<close>.  \<open>Res_send p\<close> and \<open>Res_end (Some p)\<close>
  stand for the text \<open>JSON.stringify(p)\<close>.
\<close>

record res_shape =
  has_status :: bool
  has_setHeader :: bool
  has_json :: bool
  has_send :: bool
  has_end :: bool

datatype emission = Res_json jsval | Res_send jsval | Res_end "jsval option"

record res_state =
  statusCode :: "int option"
  headers :: "(jsstring \<times> hval) list"
  emitted :: "emission list"

definition fresh_res :: res_state where
  "fresh_res = \<lparr>statusCode = None, headers = [], emitted = []\<rparr>"

text \<open>\<open>fetch\<close> rejects, or resolves with a status and a body that can be read or fails
  to be read.  \<open>response.ok\<close> is a status from 200 to 299.\<close>

datatype upstream = FetchRejects exn | FetchResolves int "exn + jsstring"

definition response_ok :: "int \<Rightarrow> bool" where
  "response_ok status \<longleftrightarrow> 200 \<le> status \<and> status \<le> 299"

text \<open>What a run of the handler leaves behind: the reply, the store, the calls made
  to the rate limiter and to the upstream, and how the run ended.\<close>

datatype event = RateLimitCheck jsstring int | UpstreamCall jsstring jsstring jsval

datatype ending = Returned | Threw exn | Pending

record outcome =
  response :: res_state
  store_after :: store
  events :: "event list"
  ending :: ending

section \<open>The handler (src/api/rank.js)\<close>

subsection \<open>Lines 9-11 and 15-38: origins and client keys\<close>

definition allowedOrigins :: "config \<Rightarrow> jsstring list" where
  "allowedOrigins cfg = filter (\<lambda>origin. origin \<noteq> []) (map trim (split_comma (ALLOWED_ORIGIN cfg)))"

definition isOriginAllowed :: "config \<Rightarrow> hval option \<Rightarrow> bool" where
  "isOriginAllowed cfg origin =
     (if \<not> truthy_h origin \<or> allowedOrigins cfg = [] then True
      else (case origin of Some (HStr s) \<Rightarrow> s \<in> set (allowedOrigins cfg) | _ \<Rightarrow> False))"

definition cors_headers :: "hval \<Rightarrow> (jsstring \<times> hval) list" where
  "cors_headers origin =
     [(js ''Access-Control-Allow-Origin'', origin),
      (js ''Access-Control-Allow-Methods'', HStr (js ''POST, OPTIONS'')),
      (js ''Access-Control-Allow-Headers'', HStr (js ''Content-Type'')),
      (js ''Vary'', HStr (js ''Origin''))]"

definition applyCorsHeaders :: "res_shape \<Rightarrow> res_state \<Rightarrow> hval option \<Rightarrow> res_state" where
  "applyCorsHeaders sh rs origin =
     (case origin of
        None \<Rightarrow> rs
      | Some h \<Rightarrow>
          if \<not> truthy_h origin \<or> \<not> has_setHeader sh then rs
          else rs\<lparr>headers := headers rs @ cors_headers h\<rparr>)"

text \<open>\<open>header.split(',')[0]\<close> is the first piece; \<open>split\<close> never gives the empty array
  (lemma \<open>split_comma_first\<close>), so the last branch of the \<open>case\<close> is never taken.\<close>

definition getClientKey :: "request \<Rightarrow> jsstring" where
  "getClientKey req =
     (let forwarded = req_headers req (js ''x-forwarded-for'');
          header = (if truthy_h forwarded then forwarded else req_headers req (js ''x-real-ip''));
          peer = (case remoteAddress req of
                    None \<Rightarrow> js ''unknown''
                  | Some a \<Rightarrow> if a \<noteq> [] then a else js ''unknown'')
      in case header of
           Some (HStr s) \<Rightarrow>
             if length s > 0 then (case split_comma s of first # _ \<Rightarrow> trim first | [] \<Rightarrow> peer)
             else peer
         | _ \<Rightarrow> peer)"

subsection \<open>Lines 52-73: respond\<close>

text \<open>Lines 54-58 (and 116-120): \<open>res.status(code)\<close> where \<open>res\<close> has it, else the assignment
  \<open>res.statusCode = code\<close>.\<close>

definition set_status :: "res_shape \<Rightarrow> res_state \<Rightarrow> int \<Rightarrow> res_state" where
  "set_status sh rs code =
     (if has_status sh then rs\<lparr>statusCode := Some code\<rparr> else rs\<lparr>statusCode := Some code\<rparr>)"

definition respond :: "res_shape \<Rightarrow> res_state \<Rightarrow> int \<Rightarrow> jsval \<Rightarrow> res_state" where
  "respond sh rs code payload =
     (let rs1 = set_status sh rs code;
          rs2 = (if has_setHeader sh
                 then rs1\<lparr>headers := headers rs1 @ [(js ''Content-Type'', HStr (js ''application/json''))]\<rparr>
                 else rs1)
      in if has_json sh then rs2\<lparr>emitted := emitted rs2 @ [Res_json payload]\<rparr>
         else if has_send sh then rs2\<lparr>emitted := emitted rs2 @ [Res_send payload]\<rparr>
         else if has_end sh then rs2\<lparr>emitted := emitted rs2 @ [Res_end (Some payload)]\<rparr>
         else rs2)"

definition error_payload :: "jsstring \<Rightarrow> jsval" where
  "error_payload msg = JObj [(js ''error'', JStr msg)]"

definition error_details :: "jsstring \<Rightarrow> jsstring \<Rightarrow> jsval" where
  "error_details msg details = JObj [(js ''error'', JStr msg), (js ''details'', JStr details)]"

subsection \<open>Lines 75-103: parseBody\<close>

datatype parsed_body = Parsed jsval | ParseThrew exn | ParseHangs

definition parse_or_null :: "jsstring \<Rightarrow> jsval" where
  "parse_or_null s = (case JSON_parse s of None \<Rightarrow> JNull | Some v \<Rightarrow> v)"

fun is_object :: "jsval \<Rightarrow> bool" where
  "is_object (JArr _) = True"
| "is_object (JObj _) = True"
| "is_object JNull = True"
| "is_object _ = False"

definition parseBody :: "request \<Rightarrow> parsed_body" where
  "parseBody req =
     (if truthy (req_body req) \<and> is_object (req_body req) then Parsed (req_body req)
      else
        (case req_body req of
           JStr s \<Rightarrow> Parsed (parse_or_null s)
         | _ \<Rightarrow>
             (case req_stream req of
                NotReadable \<Rightarrow> ParseThrew (TypeError (js ''req.on is not a function''))
              | NeverEnds \<Rightarrow> ParseHangs
              | Ends chunks \<Rightarrow>
                  (let raw = concat chunks
                   in if raw = [] then Parsed (JObj []) else Parsed (parse_or_null raw)))))"

subsection \<open>Lines 157-213: the upstream call and the validation of its reply\<close>

definition OPENAI_URL :: jsstring where
  "OPENAI_URL = js ''https://api.openai.com/v1/chat/completions''"

definition join_lines :: "jsstring list \<Rightarrow> jsstring" where
  "join_lines ls = concat (case ls of [] \<Rightarrow> [] | l # rest \<Rightarrow> l # map (\<lambda>x. 0x0A # x) rest)"

definition recipeContext :: "config \<Rightarrow> jsstring" where
  "recipeContext cfg =
     join_lines (map (\<lambda>r. recipe_id r @ js '' | '' @ recipe_title r @ js '' | '' @ recipe_details r)
                     (RECIPES cfg))"

definition system_prompt :: jsstring where
  \<open>system_prompt = js ''You rank recipes from the provided list. Respond with JSON only using this shape: {"primary":"R##","secondary":["R##","R##"]}. Choose the closest match for primary and the next two closest for secondary. Never invent new recipes, never summarize.''\<close>

definition payload :: "config \<Rightarrow> jsstring \<Rightarrow> jsval" where
  "payload cfg userQuery =
     JObj [(js ''model'', JStr (js ''gpt-4o-mini'')),
           (js ''temperature'', JNum 2 (- 1)),
           (js ''messages'',
            JArr [JObj [(js ''role'', JStr (js ''system'')), (js ''content'', JStr system_prompt)],
                  JObj [(js ''role'', JStr (js ''user'')),
                        (js ''content'',
                         JStr (js ''Recipe list:'' @ [0x0A] @ recipeContext cfg @ [0x0A, 0x0A] @
                               js ''User request: '' @ userQuery @ [0x0A] @
                               js ''Return JSON exactly with the recipe ids.''))]])]"

text \<open>Line 191, \<open>data?.choices?.[0]?.message?.content\<close> and then \<open>?.trim()\<close>: \<open>None\<close> is
  \<open>undefined\<close>; a \<open>content\<close> that is neither missing nor a string has no \<open>trim\<close> to call.\<close>

definition completion_content :: "jsval \<Rightarrow> jsval" where
  "completion_content data =
     opt_prop (opt_prop (opt_first (opt_prop data (js ''choices''))) (js ''message'')) (js ''content'')"

definition completion_text :: "jsval \<Rightarrow> exn + jsstring option" where
  "completion_text data =
     (case completion_content data of
        JUndefined \<Rightarrow> Inr None
      | JNull \<Rightarrow> Inr None
      | JStr s \<Rightarrow> Inr (Some (trim s))
      | _ \<Rightarrow> Inl (TypeError (js ''content.trim is not a function'')))"

fun is_string :: "jsval \<Rightarrow> bool" where
  "is_string (JStr _) = True"
| "is_string _ = False"

fun isArray :: "jsval \<Rightarrow> bool" where
  "isArray (JArr _) = True"
| "isArray _ = False"

text \<open>Lines 196-210, from the non-empty completion text \<open>raw\<close> on.\<close>

definition validate_ranking :: "res_shape \<Rightarrow> res_state \<Rightarrow> jsstring \<Rightarrow> exn + res_state" where
  "validate_ranking sh rs raw =
     (let cleaned = trim (strip_fences raw)
      in case JSON_parse cleaned of
           None \<Rightarrow> Inr (respond sh rs 502 (error_payload (js ''Unable to parse ChatGPT ranking response.'')))
         | Some parsed \<Rightarrow>
             (case get_prop parsed (js ''primary'') of
                Inl e \<Rightarrow> Inl e
              | Inr primary \<Rightarrow>
                  if \<not> is_string primary then
                    Inr (respond sh rs 502 (error_payload (js ''ChatGPT returned unexpected data.'')))
                  else
                    (case get_prop parsed (js ''secondary'') of
                       Inl e \<Rightarrow> Inl e
                     | Inr secondary \<Rightarrow>
                         if \<not> isArray secondary then
                           Inr (respond sh rs 502 (error_payload (js ''ChatGPT returned unexpected data.'')))
                         else Inr (respond sh rs 200 parsed))))"

text \<open>Lines 175-210, the body of the \<open>try\<close>: \<open>Inl\<close> is what it throws.\<close>

definition try_upstream :: "res_shape \<Rightarrow> res_state \<Rightarrow> upstream \<Rightarrow> exn + res_state" where
  "try_upstream sh rs up =
     (case up of
        FetchRejects e \<Rightarrow> Inl e
      | FetchResolves status body \<Rightarrow>
          if \<not> response_ok status then
            (case body of
               Inl e \<Rightarrow> Inl e
             | Inr errorMessage \<Rightarrow>
                 Inr (respond sh rs status (error_details (js ''ChatGPT API error.'') errorMessage)))
          else
            (case body of
               Inl e \<Rightarrow> Inl e
             | Inr text \<Rightarrow>
                 (case JSON_parse text of
                    None \<Rightarrow> Inl (SyntaxError (js ''Unexpected token in JSON''))
                  | Some data \<Rightarrow>
                      (case completion_text data of
                         Inl e \<Rightarrow> Inl e
                       | Inr None \<Rightarrow>
                           Inr (respond sh rs 502 (error_payload (js ''ChatGPT returned an empty response.'')))
                       | Inr (Some raw) \<Rightarrow>
                           if raw = [] then
                             Inr (respond sh rs 502 (error_payload (js ''ChatGPT returned an empty response.'')))
                           else validate_ranking sh rs raw))))"

text \<open>Lines 174-213, the \<open>try\<close> with its \<open>catch\<close>.\<close>

definition call_upstream :: "res_shape \<Rightarrow> res_state \<Rightarrow> upstream \<Rightarrow> res_state" where
  "call_upstream sh rs up =
     (case try_upstream sh rs up of
        Inr rs' \<Rightarrow> rs'
      | Inl error \<Rightarrow>
          respond sh rs 500 (error_details (js ''Unable to complete ranking request.'') (message error)))"

subsection \<open>Lines 105-155: the pipeline\<close>

text \<open>Line 145, \<open>(parsedBody.query || '').trim()\<close>.\<close>

definition query_of :: "jsval \<Rightarrow> exn + jsstring" where
  "query_of parsedBody =
     (case get_prop parsedBody (js ''query'') of
        Inl e \<Rightarrow> Inl e
      | Inr q \<Rightarrow>
          (case (if truthy q then q else JStr []) of
             JStr s \<Rightarrow> Inr (trim s)
           | _ \<Rightarrow> Inl (TypeError (js ''(parsedBody.query || ...).trim is not a function''))))"

text \<open>Lines 139-213, after the rate limiter has admitted the request.\<close>

definition rank :: "config \<Rightarrow> upstream \<Rightarrow> request \<Rightarrow> res_shape \<Rightarrow> res_state \<Rightarrow>
    res_state \<times> event list \<times> ending" where
  "rank cfg up req sh rs =
     (case parseBody req of
        ParseThrew e \<Rightarrow> (rs, [], Threw e)
      | ParseHangs \<Rightarrow> (rs, [], Pending)
      | Parsed parsedBody \<Rightarrow>
          if parsedBody = JNull then
            (respond sh rs 400 (error_payload (js ''Invalid JSON body.'')), [], Returned)
          else
            (case query_of parsedBody of
               Inl e \<Rightarrow> (rs, [], Threw e)
             | Inr userQuery \<Rightarrow>
                 if userQuery = [] then
                   (respond sh rs 400 (error_payload (js ''Query is required.'')), [], Returned)
                 else
                   (case OPENAI_API_KEY cfg of
                      None \<Rightarrow>
                        (respond sh rs 500
                           (error_payload (js ''Server misconfiguration: missing OpenAI API key.'')),
                         [], Returned)
                    | Some apiKey \<Rightarrow>
                        if apiKey = [] then
                          (respond sh rs 500
                             (error_payload (js ''Server misconfiguration: missing OpenAI API key.'')),
                           [], Returned)
                        else
                          (call_upstream sh rs up,
                           [UpstreamCall OPENAI_URL (js ''Bearer '' @ apiKey) (payload cfg userQuery)],
                           Returned))))"

definition no_content :: "res_shape \<Rightarrow> res_state \<Rightarrow> res_state" where
  "no_content sh rs =
     (let rs1 = set_status sh rs 204
      in if has_end sh then rs1\<lparr>emitted := emitted rs1 @ [Res_end None]\<rparr> else rs1)"

definition handler :: "config \<Rightarrow> store \<Rightarrow> int \<Rightarrow> upstream \<Rightarrow> request \<Rightarrow> res_shape \<Rightarrow> outcome" where
  "handler cfg st now up req sh =
     (let origin = req_headers req (js ''origin'')
      in if truthy_h origin \<and> \<not> isOriginAllowed cfg origin then
           \<lparr>response = respond sh fresh_res 403 (error_payload (js ''Origin not allowed.'')),
            store_after = st, events = [], ending = Returned\<rparr>
         else
           (let rs = (if truthy_h origin then applyCorsHeaders sh fresh_res origin else fresh_res)
            in if req_method req = Some (js ''OPTIONS'') then
                 \<lparr>response = no_content sh rs, store_after = st, events = [], ending = Returned\<rparr>
               else if req_method req \<noteq> None \<and> req_method req \<noteq> Some []
                       \<and> req_method req \<noteq> Some (js ''POST'') then
                 \<lparr>response = respond sh rs 405 (error_payload (js ''Method not allowed. Use POST.'')),
                  store_after = st, events = [], ending = Returned\<rparr>
               else
                 (let clientKey = getClientKey req;
                      (admitted, st') = takeRateLimitSlot cfg st clientKey now
                  in if \<not> admitted then
                       \<lparr>response = respond sh rs 429
                          (error_payload (js ''Rate limit exceeded. Please wait a moment and try again.'')),
                        store_after = st', events = [RateLimitCheck clientKey now], ending = Returned\<rparr>
                     else
                       (let (rs', calls, fin) = rank cfg up req sh rs
                        in \<lparr>response = rs', store_after = st',
                            events = RateLimitCheck clientKey now # calls, ending = fin\<rparr>))))"

section \<open>The stages of the pipeline, named\<close>

text \<open>Line 106: the \<open>origin\<close> header.\<close>

definition origin_of :: "request \<Rightarrow> hval option" where
  "origin_of req = req_headers req (js ''origin'')"

text \<open>Line 107: the condition under which the origin is refused.\<close>

definition origin_refused :: "config \<Rightarrow> request \<Rightarrow> bool" where
  "origin_refused cfg req \<longleftrightarrow> truthy_h (origin_of req) \<and> \<not> isOriginAllowed cfg (origin_of req)"

text \<open>Lines 108-109: the run that refuses the origin.\<close>

definition forbidden :: "res_shape \<Rightarrow> store \<Rightarrow> outcome" where
  "forbidden sh st =
     \<lparr>response = respond sh fresh_res 403 (error_payload (js ''Origin not allowed.'')),
      store_after = st, events = [], ending = Returned\<rparr>"

text \<open>Lines 111-113: the reply object once the origin is admitted.\<close>

definition cors_res :: "res_shape \<Rightarrow> request \<Rightarrow> res_state" where
  "cors_res sh req =
     (if truthy_h (origin_of req) then applyCorsHeaders sh fresh_res (origin_of req) else fresh_res)"

text \<open>Lines 115 and 127: the method is neither \<open>OPTIONS\<close> nor refused (it is \<open>POST\<close>,
  missing or empty).\<close>

definition method_accepted :: "request \<Rightarrow> bool" where
  "method_accepted req \<longleftrightarrow>
     req_method req = None \<or> req_method req = Some [] \<or> req_method req = Some (js ''POST'')"

text \<open>Lines 107-137: the request passes the origin, method and rate-limit checks.\<close>

definition passes_checks :: "config \<Rightarrow> store \<Rightarrow> int \<Rightarrow> request \<Rightarrow> bool" where
  "passes_checks cfg st now req \<longleftrightarrow>
     \<not> origin_refused cfg req \<and> method_accepted req
     \<and> fst (takeRateLimitSlot cfg st (getClientKey req) now)"

text \<open>Lines 139-149: the query of a request whose body parses and holds a query that
  is not empty.\<close>

definition user_query :: "request \<Rightarrow> jsstring option" where
  "user_query req =
     (case parseBody req of
        Parsed parsedBody \<Rightarrow>
          if parsedBody = JNull then None
          else (case query_of parsedBody of
                  Inl e \<Rightarrow> None
                | Inr userQuery \<Rightarrow> if userQuery = [] then None else Some userQuery)
      | _ \<Rightarrow> None)"

text \<open>Line 152: the credential is there.\<close>

definition has_api_key :: "config \<Rightarrow> bool" where
  "has_api_key cfg \<longleftrightarrow> OPENAI_API_KEY cfg \<noteq> None \<and> OPENAI_API_KEY cfg \<noteq> Some []"


text \<open>A completion text wrapped in code-fence markers, as in the spec's example.\<close>

definition fenced :: "jsstring \<Rightarrow> jsstring" where
  "fenced t = js ''```json'' @ [0x0A] @ t @ [0x0A] @ js ''```''"

text \<open>The declared interface of a ranking result, in the spec's words: \<open>primary\<close> a
  string, \<open>secondary\<close> an ordered sequence of strings of length exactly 2.\<close>

fun RankingResult_spec :: "jsval \<Rightarrow> bool" where
  "RankingResult_spec (JObj ms) \<longleftrightarrow>
     is_string (get_member ms (js ''primary'')) \<and>
     (case get_member ms (js ''secondary'') of
        JArr xs \<Rightarrow> length xs = 2 \<and> list_all is_string xs
      | _ \<Rightarrow> False)"
| "RankingResult_spec _ \<longleftrightarrow> False"

text \<open>A code unit that no alternative of the fence pattern can match.\<close>

definition fence_free :: "jschar \<Rightarrow> bool" where
  "fence_free c \<longleftrightarrow> lower_ascii c \<notin> set (js ''```json'')"

section \<open>Example inputs\<close>

text \<open>A configuration with the default window and ceiling, one with a ceiling of two,
  a reply object with every capability, and two requests.\<close>

definition example_config :: config where
  "example_config =
     \<lparr>RATE_LIMIT_WINDOW_MS = 60000, RATE_LIMIT_MAX = 5,
      ALLOWED_ORIGIN = js ''https://a.example, https://b.example'',
      OPENAI_API_KEY = Some (js ''sk-test''),
      RECIPES = [\<lparr>recipe_id = js ''R01'', recipe_title = js ''Chicken Soup'',
                  recipe_details = js ''classic broth''\<rparr>,
                 \<lparr>recipe_id = js ''R02'', recipe_title = js ''Veggie Stew'',
                  recipe_details = js ''root vegetables''\<rparr>]\<rparr>"

definition small_config :: config where
  "small_config = example_config\<lparr>RATE_LIMIT_MAX := 2\<rparr>"

definition full_res :: res_shape where
  "full_res = \<lparr>has_status = True, has_setHeader = True, has_json = True, has_send = True,
                has_end = True\<rparr>"

definition example_post :: "jsval \<Rightarrow> request" where
  "example_post body =
     \<lparr>req_method = Some (js ''POST''), req_headers = Map.empty,
      remoteAddress = Some (js ''10.0.0.1''), req_body = body, req_stream = NotReadable\<rparr>"

definition example_request :: "jsstring \<Rightarrow> jsstring \<Rightarrow> request" where
  "example_request m origin =
     \<lparr>req_method = Some m, req_headers = [js ''origin'' \<mapsto> HStr origin],
      remoteAddress = Some (js ''10.0.0.1''), req_body = JUndefined, req_stream = Ends []\<rparr>"

definition soup_query :: jsval where
  "soup_query = JObj [(js ''query'', JStr (js ''chicken soup''))]"

text \<open>The body of a chat-completion reply whose first choice has the given content:
  the content is written as a JSON string, quotes, backslashes and line feeds escaped.\<close>

definition json_quote :: "jsstring \<Rightarrow> jsstring" where
  "json_quote s =
     [0x22] @ concat (map (\<lambda>c. if c = 0x22 \<or> c = 0x5C then [0x5C, c]
                                else if c = 0x0A then [0x5C, 0x6E] else [c]) s) @ [0x22]"

definition chat_text :: "jsstring \<Rightarrow> jsstring" where
  \<open>chat_text content =
     js ''{"id":"chatcmpl-1","choices":[{"index":0,"message":{"role":"assistant","content":''
     @ json_quote content @ js ''}}]}''\<close>

definition chat_data :: "jsstring \<Rightarrow> jsval" where
  "chat_data content =
     JObj [(js ''id'', JStr (js ''chatcmpl-1'')),
           (js ''choices'',
            JArr [JObj [(js ''index'', JNum 0 0),
                        (js ''message'',
                         JObj [(js ''role'', JStr (js ''assistant'')),
                               (js ''content'', JStr content)])]])]"

definition chat_reply :: "jsstring \<Rightarrow> upstream" where
  "chat_reply content = FetchResolves 200 (Inr (chat_text content))"

section \<open>The model of JSON.parse on examples\<close>

lemma JSON_parse_accepts:
  \<open>JSON_parse (js ''{"primary":"R01","secondary":["R02","R03"]}'')
     = Some (JObj [(js ''primary'', JStr (js ''R01'')),
                   (js ''secondary'', JArr [JStr (js ''R02''), JStr (js ''R03'')])])\<close>
  \<open>JSON_parse (js '' [1, -2.50e3, true, false, null, {"a": {}, "b": []}] '')
     = Some (JArr [JNum 1 0, JNum (- 250) 1, JBool True, JBool False, JNull,
                   JObj [(js ''a'', JObj []), (js ''b'', JArr [])]])\<close>
  \<open>JSON_parse (js ''{"a":1,"b":2,"a":3}'') = Some (JObj [(js ''a'', JNum 3 0), (js ''b'', JNum 2 0)])\<close>
  \<open>JSON_parse (js ''"'' @ [0x5C] @ js ''u0041'' @ [0x5C] @ js ''n"'') = Some (JStr [0x41, 0x0A])\<close>
  by code_simp+

lemma JSON_parse_rejects:
  \<open>JSON_parse (js '''') = None\<close>
  \<open>JSON_parse (js ''[1,]'') = None\<close>
  \<open>JSON_parse (js ''{"a":1,}'') = None\<close>
  \<open>JSON_parse (js ''{"a" 1}'') = None\<close>
  \<open>JSON_parse (js ''01'') = None\<close>
  \<open>JSON_parse (js ''1.'') = None\<close>
  \<open>JSON_parse (js ''nul'') = None\<close>
  \<open>JSON_parse (js ''1 2'') = None\<close>
  \<open>JSON_parse (js ''[}'') = None\<close>
  \<open>JSON_parse (js ''{query: 1}'') = None\<close>
  by code_simp+

section \<open>Properties of the rate limiter\<close>

lemma length_recent_le: "length (recent_of cfg now es) \<le> length es"
  by (simp add: recent_of_def)

lemma takeRateLimitSlot_other:
  "k \<noteq> key \<Longrightarrow> entries_of (snd (takeRateLimitSlot cfg st key now)) k = entries_of st k"
  by (simp add: takeRateLimitSlot_def entries_of_def Let_def)

lemma takeRateLimitSlot_bounded:
  assumes "0 \<le> RATE_LIMIT_MAX cfg"
    and "\<forall>k. int (length (entries_of st k)) \<le> RATE_LIMIT_MAX cfg"
  shows "int (length (entries_of (snd (takeRateLimitSlot cfg st key now)) k)) \<le> RATE_LIMIT_MAX cfg"
proof (cases "k = key")
  case False
  then show ?thesis using assms(2) by (simp add: takeRateLimitSlot_other)
next
  case True
  have "int (length (recent_of cfg now (entries_of st key))) \<le> RATE_LIMIT_MAX cfg"
    using assms(2) [rule_format, of key] length_recent_le [of cfg now "entries_of st key"]
    by linarith
  then show ?thesis using True
    by (auto simp: takeRateLimitSlot_def Let_def entries_of_def)
qed

lemma checks_bounded:
  assumes "0 \<le> RATE_LIMIT_MAX cfg"
  shows "(\<forall>k. int (length (entries_of st k)) \<le> RATE_LIMIT_MAX cfg) \<Longrightarrow>
         int (length (entries_of (checks cfg st cs) k)) \<le> RATE_LIMIT_MAX cfg"
proof (induction cs arbitrary: st)
  case Nil
  then show ?case by simp
next
  case (Cons c cs)
  obtain key now where c: "c = (key, now)" by (cases c)
  have "\<forall>k. int (length (entries_of (snd (takeRateLimitSlot cfg st key now)) k)) \<le> RATE_LIMIT_MAX cfg"
    using takeRateLimitSlot_bounded [OF assms Cons.prems] by blast
  from Cons.IH [OF this] show ?case by (simp add: c)
qed

lemma reachable_bounded:
  assumes "0 \<le> RATE_LIMIT_MAX cfg"
  shows "int (length (entries_of (reachable_store cfg cs) k)) \<le> RATE_LIMIT_MAX cfg"
  unfolding reachable_store_def
  by (rule checks_bounded [OF assms]) (simp add: entries_of_def assms)

lemma within_one_window_Cons:
  "within_one_window cfg (now # nows) \<longleftrightarrow>
     (\<forall>t \<in> set nows. t - now < RATE_LIMIT_WINDOW_MS cfg) \<and> within_one_window cfg nows"
proof
  assume a: "within_one_window cfg (now # nows)"
  have "t - now < RATE_LIMIT_WINDOW_MS cfg" if "t \<in> set nows" for t
  proof -
    from that obtain i where i: "i < length nows" "nows ! i = t"
      by (auto simp: in_set_conv_nth)
    from a have "(now # nows) ! Suc i - (now # nows) ! 0 < RATE_LIMIT_WINDOW_MS cfg"
      unfolding within_one_window_def using i(1) by (metis Suc_less_eq length_Cons zero_less_Suc)
    then show ?thesis using i by simp
  qed
  moreover have "nows ! j - nows ! i < RATE_LIMIT_WINDOW_MS cfg" if "j < length nows" "i < j" for i j
  proof -
    from a have "(now # nows) ! Suc j - (now # nows) ! Suc i < RATE_LIMIT_WINDOW_MS cfg"
      unfolding within_one_window_def using that by (metis Suc_less_eq length_Cons)
    then show ?thesis by simp
  qed
  ultimately show "(\<forall>t \<in> set nows. t - now < RATE_LIMIT_WINDOW_MS cfg) \<and> within_one_window cfg nows"
    by (simp add: within_one_window_def)
next
  assume b: "(\<forall>t \<in> set nows. t - now < RATE_LIMIT_WINDOW_MS cfg) \<and> within_one_window cfg nows"
  show "within_one_window cfg (now # nows)"
    unfolding within_one_window_def
  proof (intro allI impI)
    fix j i assume j: "j < length (now # nows)" and i: "i < j"
    then obtain j' where j': "j = Suc j'" "j' < length nows" by (cases j) auto
    show "(now # nows) ! j - (now # nows) ! i < RATE_LIMIT_WINDOW_MS cfg"
    proof (cases i)
      case 0
      then show ?thesis using b j' by simp
    next
      case (Suc i')
      then show ?thesis using b j' i by (simp add: within_one_window_def)
    qed
  qed
qed

lemma recent_of_all:
  "\<forall>ts \<in> set es. now - ts < RATE_LIMIT_WINDOW_MS cfg \<Longrightarrow> recent_of cfg now es = es"
  by (simp add: recent_of_def)

lemma attempts_burst:
  "within_one_window cfg nows \<Longrightarrow>
   \<forall>ts \<in> set (entries_of st key). \<forall>t \<in> set nows. t - ts < RATE_LIMIT_WINDOW_MS cfg \<Longrightarrow>
   fst (attempts cfg st key nows) =
     replicate (min (nat (RATE_LIMIT_MAX cfg) - length (entries_of st key)) (length nows)) True @
     replicate (length nows - (nat (RATE_LIMIT_MAX cfg) - length (entries_of st key))) False"
proof (induction nows arbitrary: st)
  case Nil
  then show ?case by simp
next
  case (Cons now nows)
  let ?es = "entries_of st key"
  let ?C = "RATE_LIMIT_MAX cfg"
  have w: "within_one_window cfg nows" and later: "\<forall>t \<in> set nows. t - now < RATE_LIMIT_WINDOW_MS cfg"
    using Cons.prems(1) by (simp_all add: within_one_window_Cons)
  have rec: "recent_of cfg now ?es = ?es"
    using Cons.prems(2) by (simp add: recent_of_all)
  show ?case
  proof (cases "int (length ?es) \<ge> ?C")
    case True
    define st' where "st' = st(key \<mapsto> ?es)"
    have t: "takeRateLimitSlot cfg st key now = (False, st')"
      using True rec by (simp add: takeRateLimitSlot_def st'_def)
    have e: "entries_of st' key = ?es" by (simp add: st'_def entries_of_def)
    have "fst (attempts cfg st' key nows) =
       replicate (min (nat ?C - length ?es) (length nows)) True @
       replicate (length nows - (nat ?C - length ?es)) False"
      using Cons.IH [OF w, of st'] Cons.prems(2) by (simp add: e)
    moreover have "nat ?C - length ?es = 0" using True by linarith
    ultimately show ?thesis using t by (simp add: split_beta)
  next
    case False
    define st' where "st' = st(key \<mapsto> ?es @ [now])"
    have t: "takeRateLimitSlot cfg st key now = (True, st')"
      using False rec by (simp add: takeRateLimitSlot_def st'_def)
    have e: "entries_of st' key = ?es @ [now]" by (simp add: st'_def entries_of_def)
    have "fst (attempts cfg st' key nows) =
       replicate (min (nat ?C - length (?es @ [now])) (length nows)) True @
       replicate (length nows - (nat ?C - length (?es @ [now]))) False"
      using Cons.IH [OF w, of st'] Cons.prems(2) later by (simp add: e)
    moreover have "nat ?C - length ?es = Suc (nat ?C - length (?es @ [now]))"
      using False by (simp; linarith)
    ultimately show ?thesis using t by (simp add: split_beta)
  qed
qed

lemma attempts_admitted_le:
  "within_one_window cfg nows \<Longrightarrow>
   length (filter (\<lambda>ok. ok) (fst (attempts cfg st key nows)))
     \<le> nat (RATE_LIMIT_MAX cfg)
         - length (filter (\<lambda>ts. \<forall>t \<in> set nows. t - ts < RATE_LIMIT_WINDOW_MS cfg) (entries_of st key))"
proof (induction nows arbitrary: st)
  case Nil
  then show ?case by simp
next
  case (Cons now nows)
  let ?W = "RATE_LIMIT_WINDOW_MS cfg"
  let ?C = "RATE_LIMIT_MAX cfg"
  let ?es = "entries_of st key"
  let ?good = "\<lambda>ns es. filter (\<lambda>ts. \<forall>t \<in> set ns. t - ts < ?W) es"
  have w: "within_one_window cfg nows" and later: "\<forall>t \<in> set nows. t - now < ?W"
    using Cons.prems by (simp_all add: within_one_window_Cons)
  have sub: "length (?good (now # nows) ?es) \<le> length (?good nows (recent_of cfg now ?es))"
  proof -
    have "?good (now # nows) ?es = ?good nows (recent_of cfg now ?es)"
      by (auto simp: recent_of_def intro: filter_cong)
    then show ?thesis by simp
  qed
  have rl: "length (?good nows (recent_of cfg now ?es)) \<le> length (recent_of cfg now ?es)"
    by simp
  show ?case
  proof (cases "int (length (recent_of cfg now ?es)) \<ge> ?C")
    case True
    define st' where "st' = st(key \<mapsto> recent_of cfg now ?es)"
    have t: "takeRateLimitSlot cfg st key now = (False, st')"
      using True by (simp add: takeRateLimitSlot_def st'_def)
    have e: "entries_of st' key = recent_of cfg now ?es" by (simp add: st'_def entries_of_def)
    have ih: "length (filter (\<lambda>ok. ok) (fst (attempts cfg st' key nows)))
        \<le> nat ?C - length (?good nows (recent_of cfg now ?es))"
      using Cons.IH [OF w, of st'] by (simp add: e)
    have g: "length (filter (\<lambda>ok. ok) (fst (attempts cfg st key (now # nows))))
        = length (filter (\<lambda>ok. ok) (fst (attempts cfg st' key nows)))"
      using t by (simp add: split_beta)
    show ?thesis unfolding g using ih sub by linarith
  next
    case False
    define st' where "st' = st(key \<mapsto> recent_of cfg now ?es @ [now])"
    have t: "takeRateLimitSlot cfg st key now = (True, st')"
      using False by (simp add: takeRateLimitSlot_def st'_def)
    have e: "entries_of st' key = recent_of cfg now ?es @ [now]" by (simp add: st'_def entries_of_def)
    have ih: "length (filter (\<lambda>ok. ok) (fst (attempts cfg st' key nows)))
        \<le> nat ?C - length (?good nows (recent_of cfg now ?es @ [now]))"
      using Cons.IH [OF w, of st'] by (simp add: e)
    have s: "length (?good nows (recent_of cfg now ?es @ [now]))
        = Suc (length (?good nows (recent_of cfg now ?es)))"
      using later by simp
    have l: "length (recent_of cfg now ?es) < nat ?C"
      using False by linarith
    have g: "length (filter (\<lambda>ok. ok) (fst (attempts cfg st key (now # nows))))
        = Suc (length (filter (\<lambda>ok. ok) (fst (attempts cfg st' key nows))))"
      using t by (simp add: split_beta)
    show ?thesis unfolding g using ih s l sub rl by linarith
  qed
qed

text \<open>
  Claim C1.  An admission check at time \<open>now\<close> is denied exactly when at least
  \<open>RATE_LIMIT_MAX\<close> of the client's stored timestamps \<open>ts\<close> satisfy
  \<open>now - ts < RATE_LIMIT_WINDOW_MS\<close>; a denial stores the pruned list, an admission the
  pruned list with \<open>now\<close> appended.  Hence: of a burst of attempts by a new client
  within one window the first \<open>RATE_LIMIT_MAX\<close> are admitted and the rest denied, and
  whatever the store holds, no more than \<open>RATE_LIMIT_MAX\<close> attempts of a burst within one
  window are admitted; in
  every store the process can reach, no more than \<open>RATE_LIMIT_MAX\<close> (a ceiling that is
  not negative) timestamps of a client are in the window, at any time of evaluation;
  and a client whose oldest logged timestamp has left the window is admitted.
\<close>

theorem takeRateLimitSlot_sliding_window:
  "(\<not> fst (takeRateLimitSlot cfg st key now) \<longleftrightarrow>
      RATE_LIMIT_MAX cfg
        \<le> int (length (filter (\<lambda>ts. now - ts < RATE_LIMIT_WINDOW_MS cfg) (entries_of st key))))
   \<and> (\<not> fst (takeRateLimitSlot cfg st key now) \<longrightarrow>
        snd (takeRateLimitSlot cfg st key now)
          = st(key \<mapsto> filter (\<lambda>ts. now - ts < RATE_LIMIT_WINDOW_MS cfg) (entries_of st key)))
   \<and> (fst (takeRateLimitSlot cfg st key now) \<longrightarrow>
        snd (takeRateLimitSlot cfg st key now)
          = st(key \<mapsto> filter (\<lambda>ts. now - ts < RATE_LIMIT_WINDOW_MS cfg) (entries_of st key) @ [now]))
   \<and> (st key = None \<and> within_one_window cfg nows \<longrightarrow>
        fst (attempts cfg st key nows)
          = replicate (min (nat (RATE_LIMIT_MAX cfg)) (length nows)) True
            @ replicate (length nows - nat (RATE_LIMIT_MAX cfg)) False)
   \<and> (within_one_window cfg nows \<longrightarrow>
        length (filter (\<lambda>admitted. admitted) (fst (attempts cfg st key nows)))
          \<le> nat (RATE_LIMIT_MAX cfg))
   \<and> (0 \<le> RATE_LIMIT_MAX cfg \<longrightarrow>
        int (length (filter (\<lambda>ts. t - ts < RATE_LIMIT_WINDOW_MS cfg)
                       (entries_of (reachable_store cfg cs) k)))
          \<le> RATE_LIMIT_MAX cfg)
   \<and> (0 \<le> RATE_LIMIT_MAX cfg
        \<and> entries_of (reachable_store cfg cs) k = oldest # others
        \<and> \<not> (t - oldest < RATE_LIMIT_WINDOW_MS cfg) \<longrightarrow>
        fst (takeRateLimitSlot cfg (reachable_store cfg cs) k t))"
proof (intro conjI impI)
  show "\<not> fst (takeRateLimitSlot cfg st key now) \<longleftrightarrow>
      RATE_LIMIT_MAX cfg
        \<le> int (length (filter (\<lambda>ts. now - ts < RATE_LIMIT_WINDOW_MS cfg) (entries_of st key)))"
    by (simp add: takeRateLimitSlot_def recent_of_def Let_def)
next
  assume "\<not> fst (takeRateLimitSlot cfg st key now)"
  then show "snd (takeRateLimitSlot cfg st key now)
      = st(key \<mapsto> filter (\<lambda>ts. now - ts < RATE_LIMIT_WINDOW_MS cfg) (entries_of st key))"
    by (simp add: takeRateLimitSlot_def recent_of_def Let_def split: if_splits)
next
  assume "fst (takeRateLimitSlot cfg st key now)"
  then show "snd (takeRateLimitSlot cfg st key now)
      = st(key \<mapsto> filter (\<lambda>ts. now - ts < RATE_LIMIT_WINDOW_MS cfg) (entries_of st key) @ [now])"
    by (simp add: takeRateLimitSlot_def recent_of_def Let_def split: if_splits)
next
  assume a: "st key = None \<and> within_one_window cfg nows"
  then have e: "entries_of st key = []" by (simp add: entries_of_def)
  show "fst (attempts cfg st key nows)
      = replicate (min (nat (RATE_LIMIT_MAX cfg)) (length nows)) True
        @ replicate (length nows - nat (RATE_LIMIT_MAX cfg)) False"
    using attempts_burst [of cfg nows st key] a by (simp add: e)
next
  assume "within_one_window cfg nows"
  then show "length (filter (\<lambda>admitted. admitted) (fst (attempts cfg st key nows)))
      \<le> nat (RATE_LIMIT_MAX cfg)"
    using attempts_admitted_le [of cfg nows st key] by linarith
next
  assume c: "0 \<le> RATE_LIMIT_MAX cfg"
  have "length (filter (\<lambda>ts. t - ts < RATE_LIMIT_WINDOW_MS cfg) (entries_of (reachable_store cfg cs) k))
      \<le> length (entries_of (reachable_store cfg cs) k)"
    by simp
  then show "int (length (filter (\<lambda>ts. t - ts < RATE_LIMIT_WINDOW_MS cfg)
                       (entries_of (reachable_store cfg cs) k)))
          \<le> RATE_LIMIT_MAX cfg"
    using reachable_bounded [OF c, of cs k] by linarith
next
  assume a: "0 \<le> RATE_LIMIT_MAX cfg
        \<and> entries_of (reachable_store cfg cs) k = oldest # others
        \<and> \<not> (t - oldest < RATE_LIMIT_WINDOW_MS cfg)"
  let ?es = "entries_of (reachable_store cfg cs) k"
  have "length (recent_of cfg t ?es) \<le> length others"
    using a by (simp add: recent_of_def)
  moreover have "int (length ?es) \<le> RATE_LIMIT_MAX cfg"
    using reachable_bounded [of cfg cs k] a by simp
  ultimately have "int (length (recent_of cfg t ?es)) < RATE_LIMIT_MAX cfg"
    using a by simp
  then show "fst (takeRateLimitSlot cfg (reachable_store cfg cs) k t)"
    by (simp add: takeRateLimitSlot_def Let_def)
qed

lemma within_one_window_Nil: "within_one_window cfg []"
  by (simp add: within_one_window_def)

theorem takeRateLimitSlot_sliding_window_witness:
  "fst (attempts small_config Map.empty (js ''10.0.0.1'') [0, 10, 20]) = [True, True, False]
   \<and> entries_of (reachable_store small_config [(js ''10.0.0.1'', 0), (js ''10.0.0.1'', 10)])
        (js ''10.0.0.1'') = [0, 10]
   \<and> \<not> fst (takeRateLimitSlot small_config
              (reachable_store small_config [(js ''10.0.0.1'', 0), (js ''10.0.0.1'', 10)])
              (js ''10.0.0.1'') 20)
   \<and> fst (takeRateLimitSlot small_config
            (reachable_store small_config [(js ''10.0.0.1'', 0), (js ''10.0.0.1'', 10)])
            (js ''10.0.0.1'') 60000)"
proof -
  let ?k = "js ''10.0.0.1''"
  let ?st = "reachable_store small_config [(?k, 0), (?k, 10)]"
  have cfg: "RATE_LIMIT_MAX small_config = 2" "RATE_LIMIT_WINDOW_MS small_config = 60000"
    by (simp_all add: small_config_def example_config_def)
  have w: "within_one_window small_config [0, 10, 20]"
    by (simp add: within_one_window_Cons within_one_window_Nil cfg)
  have es: "entries_of ?st ?k = [0, 10]"
    by (simp add: reachable_store_def takeRateLimitSlot_def entries_of_def recent_of_def cfg)
  have 1: "fst (attempts small_config Map.empty ?k [0, 10, 20]) = [True, True, False]"
    using takeRateLimitSlot_sliding_window
      [where cfg = small_config and st = Map.empty and key = ?k and nows = "[0, 10, 20]"] w
    by (simp add: cfg numeral_2_eq_2)
  note t = takeRateLimitSlot_sliding_window
    [where cfg = small_config and st = ?st and key = ?k and cs = "[(?k, 0), (?k, 10)]" and k = ?k
       and oldest = 0 and others = "[10]"]
  have 2: "\<not> fst (takeRateLimitSlot small_config ?st ?k 20)"
    using t [where now = 20] by (simp add: cfg es)
  have 3: "fst (takeRateLimitSlot small_config ?st ?k 60000)"
    using t [where t = 60000] by (simp add: cfg es)
  show ?thesis using 1 2 3 es by simp
qed

section \<open>Properties of the pipeline\<close>

lemma js_neq_simps:
  "js ''OPTIONS'' \<noteq> js ''POST''" "js ''POST'' \<noteq> js ''OPTIONS''"
  "js ''OPTIONS'' \<noteq> []" "[] \<noteq> js ''OPTIONS''" "js ''POST'' \<noteq> []"
  by (simp_all add: js_def)

lemma set_status_eq [simp]: "set_status sh rs code = rs\<lparr>statusCode := Some code\<rparr>"
  by (simp add: set_status_def)

lemma split_comma_first: "\<exists>rest. split_comma s = takeWhile (\<lambda>c. c \<noteq> 0x2C) s # rest"
  by (induction s) (auto split: list.splits)

lemma response_respond [simp]:
  "statusCode (respond sh rs code p) = Some code"
  by (simp add: respond_def Let_def)

lemma handler_forbidden:
  "origin_refused cfg req \<Longrightarrow> handler cfg st now up req sh = forbidden sh st"
  by (simp add: handler_def origin_refused_def origin_of_def forbidden_def Let_def)

lemma handler_options:
  assumes "\<not> origin_refused cfg req" and "req_method req = Some (js ''OPTIONS'')"
  shows "handler cfg st now up req sh =
     \<lparr>response = no_content sh (cors_res sh req), store_after = st, events = [], ending = Returned\<rparr>"
  using assms
  by (simp add: handler_def origin_refused_def origin_of_def cors_res_def Let_def)

lemma handler_method:
  assumes "\<not> origin_refused cfg req" and "req_method req \<noteq> Some (js ''OPTIONS'')"
    and "\<not> method_accepted req"
  shows "handler cfg st now up req sh =
     \<lparr>response = respond sh (cors_res sh req) 405 (error_payload (js ''Method not allowed. Use POST.'')),
      store_after = st, events = [], ending = Returned\<rparr>"
  using assms
  by (simp add: handler_def origin_refused_def origin_of_def cors_res_def method_accepted_def Let_def)

lemma method_accepted_not_options: "method_accepted req \<Longrightarrow> req_method req \<noteq> Some (js ''OPTIONS'')"
  by (auto simp: method_accepted_def js_neq_simps)

lemma handler_limited:
  assumes "\<not> origin_refused cfg req" and "method_accepted req"
    and "\<not> fst (takeRateLimitSlot cfg st (getClientKey req) now)"
  shows "handler cfg st now up req sh =
     \<lparr>response = respond sh (cors_res sh req) 429
        (error_payload (js ''Rate limit exceeded. Please wait a moment and try again.'')),
      store_after = snd (takeRateLimitSlot cfg st (getClientKey req) now),
      events = [RateLimitCheck (getClientKey req) now], ending = Returned\<rparr>"
proof -
  have m: "req_method req \<noteq> Some (js ''OPTIONS'')"
    using assms(2) by (rule method_accepted_not_options)
  have a: "\<not> (req_method req \<noteq> None \<and> req_method req \<noteq> Some [] \<and> req_method req \<noteq> Some (js ''POST''))"
    using assms(2) by (auto simp: method_accepted_def)
  show ?thesis
    using assms(1,3) m a
    by (simp add: handler_def origin_refused_def origin_of_def cors_res_def Let_def split_beta)
qed

lemma handler_rank:
  assumes "passes_checks cfg st now req"
  shows "handler cfg st now up req sh =
     \<lparr>response = fst (rank cfg up req sh (cors_res sh req)),
      store_after = snd (takeRateLimitSlot cfg st (getClientKey req) now),
      events = RateLimitCheck (getClientKey req) now # fst (snd (rank cfg up req sh (cors_res sh req))),
      ending = snd (snd (rank cfg up req sh (cors_res sh req)))\<rparr>"
proof -
  have r: "\<not> origin_refused cfg req" and ma: "method_accepted req"
    and t: "fst (takeRateLimitSlot cfg st (getClientKey req) now)"
    using assms by (simp_all add: passes_checks_def)
  have m: "req_method req \<noteq> Some (js ''OPTIONS'')"
    using ma by (rule method_accepted_not_options)
  have a: "\<not> (req_method req \<noteq> None \<and> req_method req \<noteq> Some [] \<and> req_method req \<noteq> Some (js ''POST''))"
    using ma by (auto simp: method_accepted_def)
  show ?thesis
    using r t m a
    by (simp add: handler_def origin_refused_def origin_of_def cors_res_def Let_def split_beta)
qed



lemma no_content_status: "statusCode (no_content sh rs) = Some 204"
  by (simp add: no_content_def Let_def)

lemma handler_not_forbidden:
  assumes "\<not> origin_refused cfg req"
  shows "handler cfg st now up req sh \<noteq> forbidden sh st"
proof
  assume eq: "handler cfg st now up req sh = forbidden sh st"
  then have s: "statusCode (response (handler cfg st now up req sh)) = Some 403"
    and e: "events (handler cfg st now up req sh) = []"
    by (simp_all add: forbidden_def)
  show False
  proof (cases "req_method req = Some (js ''OPTIONS'')")
    case True
    then show False using s handler_options [OF assms True, of st now up sh]
      by (simp add: no_content_status)
  next
    case False
    show False
    proof (cases "method_accepted req")
      case m: False
      then show False using s handler_method [OF assms False m, of st now up sh] by simp
    next
      case m: True
      show False
      proof (cases "fst (takeRateLimitSlot cfg st (getClientKey req) now)")
        case True
        then have "passes_checks cfg st now req" using assms m by (simp add: passes_checks_def)
        then show False using e handler_rank [of cfg st now req up sh] by simp
      next
        case False
        then show False using e handler_limited [OF assms m False, of up sh] by simp
      qed
    qed
  qed
qed

lemma forbidden_iff: "handler cfg st now up req sh = forbidden sh st \<longleftrightarrow> origin_refused cfg req"
  using handler_not_forbidden handler_forbidden by blast

lemma rank_invalid:
  "parseBody req = Parsed JNull \<Longrightarrow>
   rank cfg up req sh rs = (respond sh rs 400 (error_payload (js ''Invalid JSON body.'')), [], Returned)"
  by (simp add: rank_def)

lemma rank_no_query:
  "parseBody req = Parsed b \<Longrightarrow> b \<noteq> JNull \<Longrightarrow> query_of b = Inr [] \<Longrightarrow>
   rank cfg up req sh rs = (respond sh rs 400 (error_payload (js ''Query is required.'')), [], Returned)"
  by (simp add: rank_def)

lemma rank_throws:
  "parseBody req = Parsed b \<Longrightarrow> b \<noteq> JNull \<Longrightarrow> query_of b = Inl e \<Longrightarrow>
   rank cfg up req sh rs = (rs, [], Threw e)"
  by (simp add: rank_def)

lemma rank_no_key:
  assumes "user_query req = Some q" and "\<not> has_api_key cfg"
  shows "rank cfg up req sh rs =
     (respond sh rs 500 (error_payload (js ''Server misconfiguration: missing OpenAI API key.'')),
      [], Returned)"
  using assms
  by (auto simp: rank_def user_query_def has_api_key_def
      split: parsed_body.splits if_splits sum.splits option.splits)

lemma trim_Nil [simp]: "trim [] = []"
  by (simp add: trim_def)

lemma query_of_empty_object: "query_of (JObj []) = Inr []"
  by (simp add: query_of_def get_member_def)

subsection \<open>The example inputs\<close>

lemma allowedOrigins_example:
  "allowedOrigins example_config = [js ''https://a.example'', js ''https://b.example'']"
  by code_simp

lemma passes_checks_example_post:
  "passes_checks (example_config\<lparr>OPENAI_API_KEY := k\<rparr>) Map.empty 0 (example_post b)"
  by (simp add: passes_checks_def origin_refused_def origin_of_def example_post_def
      method_accepted_def takeRateLimitSlot_def entries_of_def recent_of_def example_config_def)

lemma getClientKey_example_post: "getClientKey (example_post b) = js ''10.0.0.1''"
  by (simp add: getClientKey_def example_post_def) (simp add: js_def)

lemma cors_res_example_post: "cors_res sh (example_post b) = fresh_res"
  by (simp add: cors_res_def origin_of_def example_post_def)

lemma user_query_soup: "user_query (example_post soup_query) = Some (js ''chicken soup'')"
  by code_simp

lemma getClientKey_stream: "getClientKey (req\<lparr>req_stream := x\<rparr>) = getClientKey req"
  by (simp add: getClientKey_def Let_def cong: if_cong)

lemma passes_checks_stream:
  "passes_checks cfg st now (req\<lparr>req_stream := x\<rparr>) = passes_checks cfg st now req"
  by (simp add: passes_checks_def origin_refused_def origin_of_def method_accepted_def
      getClientKey_stream)

lemma cors_res_stream: "cors_res sh (req\<lparr>req_stream := x\<rparr>) = cors_res sh req"
  by (simp add: cors_res_def origin_of_def)

lemma passes_checks_example:
  "passes_checks example_config Map.empty 0 (example_post b)"
  using passes_checks_example_post [of "OPENAI_API_KEY example_config" b] by simp

lemma completion_content_chat_data: "completion_content (chat_data content) = JStr content"
  by (simp add: completion_content_def chat_data_def get_member_def) (simp add: js_def)


subsection \<open>The upstream reply\<close>



lemma call_upstream_validate:
  assumes "response_ok status" and "JSON_parse text = Some data"
    and "completion_text data = Inr (Some raw)" and "raw \<noteq> []"
  shows "call_upstream sh rs (FetchResolves status (Inr text))
     = (case validate_ranking sh rs raw of
          Inr rs' \<Rightarrow> rs'
        | Inl error \<Rightarrow>
            respond sh rs 500
              (error_details (js ''Unable to complete ranking request.'') (message error)))"
  using assms by (simp add: call_upstream_def try_upstream_def)


lemma validate_ranking_object:
  "JSON_parse (trim (strip_fences raw)) = Some (JObj ms) \<Longrightarrow>
   validate_ranking sh rs raw
     = Inr (if is_string (get_member ms (js ''primary'')) \<and> isArray (get_member ms (js ''secondary''))
            then respond sh rs 200 (JObj ms)
            else respond sh rs 502 (error_payload (js ''ChatGPT returned unexpected data.'')))"
  by (simp add: validate_ranking_def)
















subsection \<open>Fences and trimming\<close>

lemma matches_ci_append:
  assumes "lower_ascii c \<notin> set pat"
  shows "matches_ci pat (t @ c # r) = matches_ci pat t"
proof (cases "length pat \<le> length t")
  case True
  then show ?thesis by (simp add: matches_ci_def)
next
  case False
  then have l: "length t < length pat" by simp
  have "map lower_ascii (take (length pat) (t @ c # r)) \<noteq> pat"
  proof
    assume e: "map lower_ascii (take (length pat) (t @ c # r)) = pat"
    have "map lower_ascii (take (length pat) (t @ c # r)) ! length t = lower_ascii c"
      using l by (simp add: nth_append)
    then have "pat ! length t = lower_ascii c" using e by simp
    then show False using assms l by (metis nth_mem)
  qed
  then show ?thesis using l by (simp add: matches_ci_def)
qed

lemma fence_free_matches:
  "fence_free c \<Longrightarrow> matches_ci (js ''```json'') (t @ c # r) = matches_ci (js ''```json'') t"
  "fence_free c \<Longrightarrow> matches_ci (js ''```'') (t @ c # r) = matches_ci (js ''```'') t"
  by (rule matches_ci_append; simp add: fence_free_def js_def)+

lemma fence_free_head:
  "fence_free c \<Longrightarrow> \<not> matches_ci (js ''```json'') (c # r)"
  "fence_free c \<Longrightarrow> \<not> matches_ci (js ''```'') (c # r)"
  using fence_free_matches [of c "[]" r] by (simp_all add: matches_ci_def js_def)

lemma strip_fences_append:
  "fence_free c \<Longrightarrow> strip_fences (t @ c # r) = strip_fences t @ c # strip_fences r"
proof (induction t rule: strip_fences.induct)
  case 1
  then show ?case by (simp add: fence_free_head)
next
  case (2 x xs)
  show ?case
  proof (cases "matches_ci (js ''```json'') (x # xs)")
    case True
    then have l: "7 \<le> length (x # xs)" by (simp add: matches_ci_def js_def)
    have "matches_ci (js ''```json'') ((x # xs) @ c # r)"
      using True fence_free_matches(1) [OF "2.prems", of "x # xs" r] by simp
    then have "strip_fences ((x # xs) @ c # r) = strip_fences (drop 7 ((x # xs) @ c # r))"
      by simp
    also have "drop 7 ((x # xs) @ c # r) = drop 7 (x # xs) @ c # r"
      using l by simp
    also have "strip_fences (drop 7 (x # xs) @ c # r) = strip_fences (drop 7 (x # xs)) @ c # strip_fences r"
      using "2.IH"(1) [OF True "2.prems"] .
    finally show ?thesis using True by simp
  next
    case f: False
    then have nf: "\<not> matches_ci (js ''```json'') ((x # xs) @ c # r)"
      using fence_free_matches(1) [OF "2.prems", of "x # xs" r] by simp
    show ?thesis
    proof (cases "matches_ci (js ''```'') (x # xs)")
      case True
      then have l: "3 \<le> length (x # xs)" by (simp add: matches_ci_def js_def)
      have "matches_ci (js ''```'') ((x # xs) @ c # r)"
        using True fence_free_matches(2) [OF "2.prems", of "x # xs" r] by simp
      then have "strip_fences ((x # xs) @ c # r) = strip_fences (drop 3 ((x # xs) @ c # r))"
        using nf by simp
      also have "drop 3 ((x # xs) @ c # r) = drop 3 (x # xs) @ c # r"
        using l by simp
      also have "strip_fences (drop 3 (x # xs) @ c # r) = strip_fences (drop 3 (x # xs)) @ c # strip_fences r"
        using "2.IH"(2) [OF f True "2.prems"] .
      finally show ?thesis using True f by simp
    next
      case False
      then have "\<not> matches_ci (js ''```'') ((x # xs) @ c # r)"
        using fence_free_matches(2) [OF "2.prems", of "x # xs" r] by simp
      then show ?thesis using nf f False "2.IH"(3) [OF f False "2.prems"] by simp
    qed
  qed
qed

lemma is_space_fence_free: "is_space c \<Longrightarrow> fence_free c"
  unfolding is_space_def fence_free_def lower_ascii_def js_def
  apply (auto)
  done

lemma trim_space_left: "is_space c \<Longrightarrow> trim (c # s) = trim s"
  by (simp add: trim_def)

lemma trim_space_right: "is_space c \<Longrightarrow> trim (s @ [c]) = trim s"
proof -
  assume c: "is_space c"
  show ?thesis
  proof (cases "\<forall>x \<in> set s. is_space x")
    case True
    then have a: "dropWhile is_space s = []"
      by (induction s) auto
    have b: "dropWhile is_space (s @ [c]) = dropWhile is_space [c]"
      by (rule dropWhile_append2) (use True in blast)
    show ?thesis unfolding trim_def a b using c by simp
  next
    case False
    then obtain x where "x \<in> set s" "\<not> is_space x" by blast
    then have b: "dropWhile is_space (s @ [c]) = dropWhile is_space s @ [c]"
      by (rule dropWhile_append1)
    show ?thesis unfolding trim_def b using c by simp
  qed
qed

lemma trim_spaces_left: "\<forall>x \<in> set ws. is_space x \<Longrightarrow> trim (ws @ s) = trim s"
  by (induction ws) (simp_all add: trim_space_left)

lemma trim_spaces_right: "\<forall>x \<in> set ws. is_space x \<Longrightarrow> trim (s @ ws) = trim s"
proof (induction ws rule: rev_induct)
  case Nil
  then show ?case by simp
next
  case (snoc x xs)
  then show ?case using trim_space_right [of x "s @ xs"] by simp
qed

lemma strip_fences_spaces_left:
  "\<forall>x \<in> set ws. is_space x \<Longrightarrow> strip_fences (ws @ s) = ws @ strip_fences s"
proof (induction ws)
  case Nil
  then show ?case by simp
next
  case (Cons x xs)
  then have "fence_free x" by (simp add: is_space_fence_free)
  then show ?case using Cons strip_fences_append [of x "[]" "xs @ s"] by simp
qed

lemma strip_fences_spaces_right:
  "\<forall>x \<in> set ws. is_space x \<Longrightarrow> strip_fences (s @ ws) = strip_fences s @ ws"
proof (cases ws)
  case Nil
  then show ?thesis by simp
next
  case (Cons x xs)
  assume a: "\<forall>x \<in> set ws. is_space x"
  then have "fence_free x" using Cons by (simp add: is_space_fence_free)
  then have "strip_fences (s @ x # xs) = strip_fences s @ x # strip_fences xs"
    by (rule strip_fences_append)
  moreover have "strip_fences xs = xs"
    using strip_fences_spaces_left [of xs "[]"] a Cons by simp
  ultimately show ?thesis using Cons by simp
qed

lemma trim_decompose:
  "\<exists>l r. (\<forall>x \<in> set l. is_space x) \<and> (\<forall>x \<in> set r. is_space x) \<and> s = l @ trim s @ r"
proof -
  let ?u = "dropWhile is_space s"
  have 1: "s = takeWhile is_space s @ ?u" by simp
  have "?u = rev (dropWhile is_space (rev ?u)) @ rev (takeWhile is_space (rev ?u))"
    by (metis rev_append rev_rev_ident takeWhile_dropWhile_id)
  then have 2: "?u = trim s @ rev (takeWhile is_space (rev ?u))"
    by (simp only: trim_def)
  have l: "\<forall>x \<in> set (takeWhile is_space s). is_space x"
    by (meson set_takeWhileD)
  have r: "\<forall>x \<in> set (rev (takeWhile is_space (rev ?u))). is_space x"
    by (metis set_rev set_takeWhileD)
  have "s = takeWhile is_space s @ trim s @ rev (takeWhile is_space (rev ?u))"
    using 1 2 by metis
  then show ?thesis using l r by blast
qed

lemma trim_strip_fences_trim: "trim (strip_fences (trim s)) = trim (strip_fences s)"
proof -
  obtain l r where l: "\<forall>x \<in> set l. is_space x" and r: "\<forall>x \<in> set r. is_space x"
    and s: "s = l @ trim s @ r"
    using trim_decompose by blast
  have "strip_fences s = strip_fences (l @ (trim s @ r))" using s by simp
  also have "\<dots> = l @ strip_fences (trim s @ r)" using l by (rule strip_fences_spaces_left)
  also have "\<dots> = l @ strip_fences (trim s) @ r" using r by (simp add: strip_fences_spaces_right)
  finally have "trim (strip_fences s) = trim (l @ (strip_fences (trim s) @ r))" by simp
  also have "\<dots> = trim (strip_fences (trim s) @ r)" using l by (rule trim_spaces_left)
  also have "\<dots> = trim (strip_fences (trim s))" using r by (rule trim_spaces_right)
  finally show ?thesis by simp
qed

lemma strip_fences_fenced: "strip_fences (fenced t) = 0x0A # strip_fences t @ [0x0A]"
proof -
  have f: "fence_free 0x0A" by (simp add: fence_free_def lower_ascii_def js_def)
  have "fenced t = js ''```json'' @ 0x0A # (t @ 0x0A # js ''```'')"
    by (simp add: fenced_def)
  then have "strip_fences (fenced t)
      = strip_fences (js ''```json'') @ 0x0A # strip_fences (t @ 0x0A # js ''```'')"
    using strip_fences_append [OF f] by simp
  also have "strip_fences (t @ 0x0A # js ''```'') = strip_fences t @ 0x0A # strip_fences (js ''```'')"
    using strip_fences_append [OF f] by simp
  also have "strip_fences (js ''```json'') = []" by code_simp
  also have "strip_fences (js ''```'') = []" by code_simp
  finally show ?thesis by simp
qed

lemma trim_fenced: "trim (fenced t) = fenced t"
proof -
  have b: "\<not> is_space 0x60" by (simp add: is_space_def)
  have "fenced t = 0x60 # (js ''``json'' @ [0x0A] @ t @ [0x0A] @ js ''``'') @ [0x60]"
    by (simp add: fenced_def js_def)
  then obtain m where m: "fenced t = 0x60 # m @ [0x60]" by blast
  show ?thesis unfolding m using b by (simp add: trim_def)
qed

lemma cleaned_fenced: "trim (strip_fences (trim (fenced t))) = trim (strip_fences (trim t))"
proof -
  have n: "is_space 0x0A" by (simp add: is_space_def)
  have "trim (strip_fences (trim (fenced t))) = trim (0x0A # strip_fences t @ [0x0A])"
    by (simp add: trim_fenced strip_fences_fenced)
  also have "\<dots> = trim (strip_fences t)"
    using n trim_space_right [of "0x0A" "0x0A # strip_fences t"] by (simp add: trim_space_left)
  finally show ?thesis by (simp add: trim_strip_fences_trim)
qed

subsection \<open>Replies with status 200\<close>

lemma statusCode_cors_res: "statusCode (cors_res sh req) = None"
  by (simp add: cors_res_def applyCorsHeaders_def fresh_res_def split: option.splits)

lemma validate_ranking_200:
  assumes "validate_ranking sh rs raw = Inr r" and "statusCode r = Some 200"
  shows "\<exists>ms. JSON_parse (trim (strip_fences raw)) = Some (JObj ms)
           \<and> is_string (get_member ms (js ''primary''))
           \<and> isArray (get_member ms (js ''secondary''))
           \<and> r = respond sh rs 200 (JObj ms)"
proof (cases "JSON_parse (trim (strip_fences raw))")
  case None
  then show ?thesis using assms by (auto simp: validate_ranking_def)
next
  case (Some parsed)
  then show ?thesis using assms
    by (cases parsed) (auto simp: validate_ranking_def split: if_splits)
qed

lemma try_upstream_200:
  assumes "try_upstream sh rs up = Inr r" and "statusCode r = Some 200"
  shows "\<exists>status body data raw ms.
           up = FetchResolves status (Inr body) \<and> response_ok status
           \<and> JSON_parse body = Some data \<and> completion_text data = Inr (Some raw) \<and> raw \<noteq> []
           \<and> JSON_parse (trim (strip_fences raw)) = Some (JObj ms)
           \<and> is_string (get_member ms (js ''primary''))
           \<and> isArray (get_member ms (js ''secondary''))
           \<and> r = respond sh rs 200 (JObj ms)"
proof (cases up)
  case (FetchRejects e)
  then show ?thesis using assms by (simp add: try_upstream_def)
next
  case (FetchResolves status b)
  show ?thesis
  proof (cases "response_ok status")
    case False
    then have "status \<noteq> 200" by (auto simp: response_ok_def)
    then show ?thesis using assms FetchResolves False
      by (auto simp: try_upstream_def split: sum.splits)
  next
    case True
    then obtain body data raw where b: "b = Inr body" and d: "JSON_parse body = Some data"
      and c: "completion_text data = Inr (Some raw)" and n: "raw \<noteq> []"
      and v: "validate_ranking sh rs raw = Inr r"
      using assms FetchResolves
      by (auto simp: try_upstream_def split: sum.splits option.splits if_splits)
    from validate_ranking_200 [OF v assms(2)] show ?thesis
      using FetchResolves True b d c n by blast
  qed
qed

lemma call_upstream_200:
  assumes "statusCode (call_upstream sh rs up) = Some 200"
  shows "\<exists>status body data raw ms.
           up = FetchResolves status (Inr body) \<and> response_ok status
           \<and> JSON_parse body = Some data \<and> completion_text data = Inr (Some raw) \<and> raw \<noteq> []
           \<and> JSON_parse (trim (strip_fences raw)) = Some (JObj ms)
           \<and> is_string (get_member ms (js ''primary''))
           \<and> isArray (get_member ms (js ''secondary''))
           \<and> call_upstream sh rs up = respond sh rs 200 (JObj ms)"
proof (cases "try_upstream sh rs up")
  case (Inl e)
  then show ?thesis using assms by (simp add: call_upstream_def)
next
  case (Inr r)
  then have "call_upstream sh rs up = r" by (simp add: call_upstream_def)
  then show ?thesis using try_upstream_200 [OF Inr] assms by simp
qed

lemma rank_200:
  assumes "statusCode rs = None" and "statusCode (fst (rank cfg up req sh rs)) = Some 200"
  shows "fst (rank cfg up req sh rs) = call_upstream sh rs up"
  using assms
  by (auto simp: rank_def split: parsed_body.splits sum.splits option.splits if_splits)

lemma handler_200:
  assumes "statusCode (response (handler cfg st now up req sh)) = Some 200"
  shows "response (handler cfg st now up req sh) = call_upstream sh (cors_res sh req) up"
proof (cases "origin_refused cfg req")
  case True
  then show ?thesis using assms by (simp add: handler_forbidden forbidden_def)
next
  case r: False
  show ?thesis
  proof (cases "req_method req = Some (js ''OPTIONS'')")
    case True
    then show ?thesis using assms by (simp add: handler_options [OF r True] no_content_status)
  next
    case o: False
    show ?thesis
    proof (cases "method_accepted req")
      case False
      then show ?thesis using assms by (simp add: handler_method [OF r o False])
    next
      case m: True
      show ?thesis
      proof (cases "fst (takeRateLimitSlot cfg st (getClientKey req) now)")
        case False
        then show ?thesis using assms by (simp add: handler_limited [OF r m False])
      next
        case True
        then have p: "passes_checks cfg st now req" using r m by (simp add: passes_checks_def)
        show ?thesis
          using assms rank_200 [OF statusCode_cors_res, of cfg up req sh sh req]
          by (simp add: handler_rank [OF p])
      qed
    qed
  qed
qed

subsection \<open>The handler reads the upstream through \<open>call_upstream\<close> only\<close>

lemma rank_upstream_cong:
  assumes "call_upstream sh rs up1 = call_upstream sh rs up2"
  shows "rank cfg up1 req sh rs = rank cfg up2 req sh rs"
  using assms
  by (auto simp: rank_def split: parsed_body.splits sum.splits option.splits if_splits)

lemma handler_upstream_cong:
  assumes "\<And>rs. call_upstream sh rs up1 = call_upstream sh rs up2"
  shows "handler cfg st now up1 req sh = handler cfg st now up2 req sh"
proof -
  have "rank cfg up1 req sh rs = rank cfg up2 req sh rs" for rs
    using assms by (rule rank_upstream_cong)
  then show ?thesis
    by (simp add: handler_def Let_def split_beta cong: if_cong)
qed

lemma validate_ranking_cleaned:
  "trim (strip_fences a) = trim (strip_fences b) \<Longrightarrow> validate_ranking sh rs a = validate_ranking sh rs b"
  by (simp add: validate_ranking_def)

text \<open>
  Claim C2, as amended.  When the handler replies with status 200, the upstream had
  answered with a success status and a completion text; the body of the reply is the
  object parsed from that text (fences stripped), as it is, and this object has a
  string \<open>primary\<close> and an array \<open>secondary\<close>.  The length of \<open>secondary\<close> and what it
  holds are not checked.
\<close>

theorem success_body:
  assumes "statusCode (response (handler cfg st now up req sh)) = Some 200"
  shows "\<exists>status body data raw ms.
           up = FetchResolves status (Inr body) \<and> response_ok status
           \<and> JSON_parse body = Some data \<and> completion_text data = Inr (Some raw) \<and> raw \<noteq> []
           \<and> JSON_parse (trim (strip_fences raw)) = Some (JObj ms)
           \<and> is_string (get_member ms (js ''primary''))
           \<and> isArray (get_member ms (js ''secondary''))
           \<and> response (handler cfg st now up req sh) = respond sh (cors_res sh req) 200 (JObj ms)"
proof -
  have h: "response (handler cfg st now up req sh) = call_upstream sh (cors_res sh req) up"
    using assms by (rule handler_200)
  then have "statusCode (call_upstream sh (cors_res sh req) up) = Some 200"
    using assms by simp
  from call_upstream_200 [OF this] show ?thesis
    unfolding h by blast
qed

lemma spec_ranking_200:
  \<open>statusCode (response (handler example_config Map.empty 0
       (chat_reply (js ''{"primary":"R01","secondary":["R02","R03"]}''))
       (example_post soup_query) full_res)) = Some 200\<close>
  by code_simp

theorem success_body_witness:
  \<open>\<exists>ms. response (handler example_config Map.empty 0
            (chat_reply (js ''{"primary":"R01","secondary":["R02","R03"]}''))
            (example_post soup_query) full_res)
          = respond full_res fresh_res 200 (JObj ms)
        \<and> is_string (get_member ms (js ''primary''))
        \<and> isArray (get_member ms (js ''secondary''))\<close>
  using success_body [OF spec_ranking_200]
  by (auto simp: cors_res_example_post)

text \<open>
  Claim C2 as stated fails: an upstream completion \<open>{"primary":"R01","secondary":[]}\<close>
  is answered with status 200 and that object as the body, whose \<open>secondary\<close> has no
  element, so the body does not conform to the declared interface.
\<close>

theorem success_body_counterexample:
  \<open>response (handler example_config Map.empty 0
       (chat_reply (js ''{"primary":"R01","secondary":[]}''))
       (example_post soup_query) full_res)
     = \<lparr>statusCode = Some 200,
        headers = [(js ''Content-Type'', HStr (js ''application/json''))],
        emitted = [Res_json (JObj [(js ''primary'', JStr (js ''R01'')), (js ''secondary'', JArr [])])]\<rparr>
   \<and> \<not> RankingResult_spec (JObj [(js ''primary'', JStr (js ''R01'')), (js ''secondary'', JArr [])])\<close>
  by code_simp

text \<open>
  Claim C3 fails on the code: line 145 calls \<open>trim\<close> on whatever \<open>parsedBody.query\<close>
  holds, outside the \<open>try\<close> of line 174.  For the body \<open>{"query": 5}\<close> the call throws a
  \<open>TypeError\<close>; the run ends with that exception and nothing has been written to the
  reply.
\<close>

theorem numeric_query_throws:
  "handler example_config Map.empty 0 (chat_reply [])
       (example_post (JObj [(js ''query'', JNum 5 0)])) full_res
     = \<lparr>response = \<lparr>statusCode = None, headers = [], emitted = []\<rparr>,
        store_after = [js ''10.0.0.1'' \<mapsto> [0]],
        events = [RateLimitCheck (js ''10.0.0.1'') 0],
        ending = Threw (TypeError (js ''(parsedBody.query || ...).trim is not a function''))\<rparr>"
proof -
  let ?req = "example_post (JObj [(js ''query'', JNum 5 0)])"
  have q: "query_of (JObj [(js ''query'', JNum 5 0)])
      = Inl (TypeError (js ''(parsedBody.query || ...).trim is not a function''))"
    by (simp add: query_of_def get_member_def number_truthy_def)
  have b: "parseBody ?req = Parsed (JObj [(js ''query'', JNum 5 0)])"
    by (simp add: parseBody_def example_post_def)
  have "rank example_config (chat_reply []) ?req full_res fresh_res
      = (fresh_res, [], Threw (TypeError (js ''(parsedBody.query || ...).trim is not a function'')))"
    using rank_throws [OF b _ q] by simp
  then show ?thesis
    unfolding handler_rank [OF passes_checks_example] getClientKey_example_post cors_res_example_post
    by (simp add: fresh_res_def takeRateLimitSlot_def entries_of_def recent_of_def example_config_def)
qed

text \<open>
  Claim C4.  A request is refused for its origin when the handler answers with
  \<open>forbidden\<close>: status 403, "Origin not allowed.", nothing else done.  With an empty
  allow-list no request is refused; with one that is not empty, a request whose origin
  is present is admitted exactly when the origin is in the list; a refusal leaves the
  store alone and calls neither the rate limiter nor the upstream; a request without
  an origin is never refused; and the method plays no part in the decision.
\<close>

theorem origin_admission:
  "(allowedOrigins cfg = [] \<longrightarrow> handler cfg st now up req sh \<noteq> forbidden sh st)
   \<and> (allowedOrigins cfg \<noteq> [] \<and> origin_of req = Some origin \<and> truthy_h (Some origin) \<longrightarrow>
        (handler cfg st now up req sh \<noteq> forbidden sh st
           \<longleftrightarrow> (\<exists>s. origin = HStr s \<and> s \<in> set (allowedOrigins cfg))))
   \<and> (handler cfg st now up req sh = forbidden sh st \<longrightarrow>
        statusCode (response (handler cfg st now up req sh)) = Some 403
        \<and> store_after (handler cfg st now up req sh) = st
        \<and> events (handler cfg st now up req sh) = []
        \<and> ending (handler cfg st now up req sh) = Returned)
   \<and> (\<not> truthy_h (origin_of req) \<longrightarrow> handler cfg st now up req sh \<noteq> forbidden sh st)
   \<and> (handler cfg st now up (req\<lparr>req_method := m\<rparr>) sh = forbidden sh st
        \<longleftrightarrow> handler cfg st now up req sh = forbidden sh st)"
proof -
  have 1: "allowedOrigins cfg = [] \<longrightarrow> handler cfg st now up req sh \<noteq> forbidden sh st"
    by (simp add: forbidden_iff origin_refused_def isOriginAllowed_def)
  have 2: "allowedOrigins cfg \<noteq> [] \<and> origin_of req = Some origin \<and> truthy_h (Some origin) \<longrightarrow>
        (handler cfg st now up req sh \<noteq> forbidden sh st
           \<longleftrightarrow> (\<exists>s. origin = HStr s \<and> s \<in> set (allowedOrigins cfg)))"
    by (cases origin) (auto simp: forbidden_iff origin_refused_def isOriginAllowed_def)
  have 3: "handler cfg st now up req sh = forbidden sh st \<longrightarrow>
        statusCode (response (handler cfg st now up req sh)) = Some 403
        \<and> store_after (handler cfg st now up req sh) = st
        \<and> events (handler cfg st now up req sh) = []
        \<and> ending (handler cfg st now up req sh) = Returned"
    by (simp add: forbidden_def)
  have 4: "\<not> truthy_h (origin_of req) \<longrightarrow> handler cfg st now up req sh \<noteq> forbidden sh st"
    by (simp add: forbidden_iff origin_refused_def)
  have 5: "handler cfg st now up (req\<lparr>req_method := m\<rparr>) sh = forbidden sh st
        \<longleftrightarrow> handler cfg st now up req sh = forbidden sh st"
    by (simp add: forbidden_iff origin_refused_def origin_of_def)
  show ?thesis
    by (intro conjI) (rule 1, rule 2, rule 3, rule 4, rule 5)
qed

theorem origin_admission_witness:
  "handler example_config Map.empty 0 (FetchRejects (Failure []))
       (example_request (js ''POST'') (js ''https://evil.example'')) full_res
     = forbidden full_res Map.empty
   \<and> handler example_config Map.empty 0 (FetchRejects (Failure []))
       (example_request (js ''POST'') (js ''https://b.example'')) full_res
     \<noteq> forbidden full_res Map.empty"
proof -
  have o: "origin_of (example_request (js ''POST'') s) = Some (HStr s)" for s
    by (simp add: origin_of_def example_request_def)
  have n: "js ''https://evil.example'' \<noteq> []" "js ''https://b.example'' \<noteq> []"
    "js ''https://evil.example'' \<notin> set (allowedOrigins example_config)"
    "js ''https://b.example'' \<in> set (allowedOrigins example_config)"
    by (simp_all add: allowedOrigins_example) (simp_all add: js_def)
  show ?thesis
    using origin_admission [where cfg = example_config and st = Map.empty and now = 0
        and up = "FetchRejects (Failure [])" and sh = full_res
        and req = "example_request (js ''POST'') (js ''https://evil.example'')"
        and origin = "HStr (js ''https://evil.example'')"]
      origin_admission [where cfg = example_config and st = Map.empty and now = 0
        and up = "FetchRejects (Failure [])" and sh = full_res
        and req = "example_request (js ''POST'') (js ''https://b.example'')"
        and origin = "HStr (js ''https://b.example'')"]
    using o n by (simp add: allowedOrigins_example)
qed









text \<open>
  Claim C6.  A request with method \<open>OPTIONS\<close> whose origin is not refused gets status
  204 without a body (\<open>res.end()\<close> where the reply object has it), with the CORS
  headers and no other (none when there is no origin to echo or no \<open>setHeader\<close>); the
  rate limiter and the upstream are not called, and the store is as before.
\<close>

theorem options_no_content:
  assumes "req_method req = Some (js ''OPTIONS'')" and "\<not> origin_refused cfg req"
  shows "handler cfg st now up req sh =
     \<lparr>response =
        \<lparr>statusCode = Some 204,
         headers = (case origin_of req of
                      None \<Rightarrow> []
                    | Some origin \<Rightarrow>
                        if truthy_h (Some origin) \<and> has_setHeader sh then cors_headers origin else []),
         emitted = (if has_end sh then [Res_end None] else [])\<rparr>,
      store_after = st, events = [], ending = Returned\<rparr>"
  using assms
  by (simp add: handler_options no_content_def cors_res_def applyCorsHeaders_def fresh_res_def
        Let_def split: option.splits)

theorem options_no_content_witness:
  "handler example_config Map.empty 0 (FetchRejects (Failure []))
       (example_request (js ''OPTIONS'') (js ''https://a.example'')) full_res =
     \<lparr>response =
        \<lparr>statusCode = Some 204,
         headers = cors_headers (HStr (js ''https://a.example'')),
         emitted = [Res_end None]\<rparr>,
      store_after = Map.empty, events = [], ending = Returned\<rparr>"
proof -
  let ?req = "example_request (js ''OPTIONS'') (js ''https://a.example'')"
  have m: "req_method ?req = Some (js ''OPTIONS'')"
    by (simp add: example_request_def)
  have o: "origin_of ?req = Some (HStr (js ''https://a.example''))"
    by (simp add: origin_of_def example_request_def)
  have n: "js ''https://a.example'' \<noteq> []" by (simp add: js_def)
  have r: "\<not> origin_refused example_config ?req"
    by (simp add: origin_refused_def isOriginAllowed_def o allowedOrigins_example)
  show ?thesis
    using options_no_content [OF m r, of Map.empty 0 "FetchRejects (Failure [])" full_res]
    by (simp add: o n full_res_def)
qed

lemma handler_invalid_body:
  assumes "passes_checks cfg st now req" and "parseBody req = Parsed JNull"
  shows "handler cfg st now up req sh =
     \<lparr>response = respond sh (cors_res sh req) 400 (error_payload (js ''Invalid JSON body.'')),
      store_after = snd (takeRateLimitSlot cfg st (getClientKey req) now),
      events = [RateLimitCheck (getClientKey req) now], ending = Returned\<rparr>"
  by (simp add: handler_rank [OF assms(1)] rank_invalid [OF assms(2)])

lemma handler_no_query:
  assumes "passes_checks cfg st now req" and "parseBody req = Parsed b" and "b \<noteq> JNull"
    and "query_of b = Inr []"
  shows "handler cfg st now up req sh =
     \<lparr>response = respond sh (cors_res sh req) 400 (error_payload (js ''Query is required.'')),
      store_after = snd (takeRateLimitSlot cfg st (getClientKey req) now),
      events = [RateLimitCheck (getClientKey req) now], ending = Returned\<rparr>"
  by (simp add: handler_rank [OF assms(1)] rank_no_query [OF assms(2,3,4)])

lemma parseBody_object:
  "truthy (req_body req) \<and> is_object (req_body req) \<Longrightarrow> parseBody req = Parsed (req_body req)"
  by (simp add: parseBody_def)

lemma parseBody_not_json:
  "req_body req = JStr s \<Longrightarrow> JSON_parse s = None \<Longrightarrow> parseBody req = Parsed JNull"
  by (simp add: parseBody_def parse_or_null_def)

lemma parseBody_empty_stream:
  assumes "\<not> (truthy (req_body req) \<and> is_object (req_body req))" and "\<not> is_string (req_body req)"
    and "req_stream req = Ends chunks" and "concat chunks = []"
  shows "parseBody req = Parsed (JObj [])"
  using assms by (cases "req_body req") (auto simp: parseBody_def)

lemma parseBody_total:
  "(truthy (req_body req) \<and> is_object (req_body req)) \<or> is_string (req_body req)
     \<or> req_stream req = Ends chunks \<Longrightarrow> \<exists>v. parseBody req = Parsed v"
  by (cases "req_body req") (auto simp: parseBody_def Let_def)

text \<open>
  Claim C7.  \<open>parseBody\<close> returns a value for each of the three shapes of a request: a
  body that is already an object is returned as it is; a string body that is not JSON
  gives \<open>null\<close>, and a request that passed the earlier checks then ends, nothing thrown,
  with status 400 and the body \<open>{"error": "Invalid JSON body."}\<close>; a stream that ends
  without data gives the empty object, and such a request ends with status 400 and the
  body \<open>{"error": "Query is required."}\<close>.  \<open>reply code p\<close> writes the reply object out:
  the status, the headers (those of CORS, then the content type) and the one body
  emitted.
\<close>

theorem body_normalization:
  \<open>(let reply = (\<lambda>code p.
           \<lparr>statusCode = Some code,
            headers = (case origin_of req of
                         None \<Rightarrow> []
                       | Some origin \<Rightarrow>
                           if truthy_h (Some origin) \<and> has_setHeader sh then cors_headers origin
                           else [])
                      @ (if has_setHeader sh
                         then [(js ''Content-Type'', HStr (js ''application/json''))] else []),
            emitted = (if has_json sh then [Res_json p]
                       else if has_send sh then [Res_send p]
                       else if has_end sh then [Res_end (Some p)]
                       else [])\<rparr>)
    in (truthy (req_body req) \<and> is_object (req_body req) \<longrightarrow> parseBody req = Parsed (req_body req))
       \<and> (req_body req = JStr s \<and> JSON_parse s = None \<longrightarrow>
            parseBody req = Parsed JNull
            \<and> (passes_checks cfg st now req \<longrightarrow>
                 handler cfg st now up req sh =
                   \<lparr>response = reply 400 (JObj [(js ''error'', JStr (js ''Invalid JSON body.''))]),
                    store_after = snd (takeRateLimitSlot cfg st (getClientKey req) now),
                    events = [RateLimitCheck (getClientKey req) now], ending = Returned\<rparr>))
       \<and> (\<not> (truthy (req_body req) \<and> is_object (req_body req)) \<and> \<not> is_string (req_body req)
            \<and> req_stream req = Ends chunks \<and> concat chunks = [] \<longrightarrow>
            parseBody req = Parsed (JObj [])
            \<and> (passes_checks cfg st now req \<longrightarrow>
                 handler cfg st now up req sh =
                   \<lparr>response = reply 400 (JObj [(js ''error'', JStr (js ''Query is required.''))]),
                    store_after = snd (takeRateLimitSlot cfg st (getClientKey req) now),
                    events = [RateLimitCheck (getClientKey req) now], ending = Returned\<rparr>))
       \<and> ((truthy (req_body req) \<and> is_object (req_body req)) \<or> is_string (req_body req)
            \<or> req_stream req = Ends chunks \<longrightarrow>
            (\<exists>v. parseBody req = Parsed v)))\<close>
proof -
  have rc: "respond sh (cors_res sh req) code p =
     \<lparr>statusCode = Some code,
      headers = (case origin_of req of
                   None \<Rightarrow> []
                 | Some origin \<Rightarrow>
                     if truthy_h (Some origin) \<and> has_setHeader sh then cors_headers origin else [])
                @ (if has_setHeader sh then [(js ''Content-Type'', HStr (js ''application/json''))]
                   else []),
      emitted = (if has_json sh then [Res_json p]
                 else if has_send sh then [Res_send p]
                 else if has_end sh then [Res_end (Some p)]
                 else [])\<rparr>" for code p
    by (simp add: respond_def set_status_def cors_res_def applyCorsHeaders_def fresh_res_def Let_def
        split: option.splits)
  show ?thesis
    unfolding Let_def
    apply (intro conjI impI)
    subgoal by (rule parseBody_object)
    subgoal by (simp add: parseBody_not_json)
    subgoal
      using handler_invalid_body [of cfg st now req up sh]
      by (simp add: parseBody_not_json rc error_payload_def)
    subgoal by (simp add: parseBody_empty_stream)
    subgoal
      using handler_no_query [of cfg st now req "JObj []" up sh]
      by (simp add: parseBody_empty_stream query_of_empty_object rc error_payload_def)
    subgoal by (rule parseBody_total)
    done
qed

lemma JSON_parse_bad: \<open>JSON_parse (js ''{"query": '') = None\<close>
  by code_simp

lemma example_store_after:
  "snd (takeRateLimitSlot example_config Map.empty (js ''10.0.0.1'') 0) = [js ''10.0.0.1'' \<mapsto> [0]]"
  by (simp add: takeRateLimitSlot_def entries_of_def recent_of_def example_config_def)

theorem body_normalization_witness:
  \<open>parseBody (example_post soup_query) = Parsed soup_query
   \<and> parseBody (example_post (JStr (js ''{"query": ''))) = Parsed JNull
   \<and> handler example_config Map.empty 0 (FetchRejects (Failure []))
         (example_post (JStr (js ''{"query": ''))) full_res
       = \<lparr>response =
            \<lparr>statusCode = Some 400,
             headers = [(js ''Content-Type'', HStr (js ''application/json''))],
             emitted = [Res_json (JObj [(js ''error'', JStr (js ''Invalid JSON body.''))])]\<rparr>,
          store_after = [js ''10.0.0.1'' \<mapsto> [0]],
          events = [RateLimitCheck (js ''10.0.0.1'') 0], ending = Returned\<rparr>
   \<and> parseBody ((example_post JUndefined)\<lparr>req_stream := Ends []\<rparr>) = Parsed (JObj [])
   \<and> handler example_config Map.empty 0 (FetchRejects (Failure []))
         ((example_post JUndefined)\<lparr>req_stream := Ends []\<rparr>) full_res
       = \<lparr>response =
            \<lparr>statusCode = Some 400,
             headers = [(js ''Content-Type'', HStr (js ''application/json''))],
             emitted = [Res_json (JObj [(js ''error'', JStr (js ''Query is required.''))])]\<rparr>,
          store_after = [js ''10.0.0.1'' \<mapsto> [0]],
          events = [RateLimitCheck (js ''10.0.0.1'') 0], ending = Returned\<rparr>\<close>
proof -
  let ?up = "FetchRejects (Failure [])"
  let ?bad = \<open>example_post (JStr (js ''{"query": ''))\<close>
  let ?empty = "(example_post JUndefined)\<lparr>req_stream := Ends []\<rparr>"
  note p = passes_checks_example
  have p': "passes_checks example_config Map.empty 0 ?empty"
    by (simp add: passes_checks_stream p)
  have o: "origin_of (example_post b) = None" "origin_of ((example_post b)\<lparr>req_stream := x\<rparr>) = None"
    for b x
    by (simp_all add: origin_of_def example_post_def)
  have k: "getClientKey ?empty = js ''10.0.0.1''"
    by (simp add: getClientKey_stream getClientKey_example_post)
  have 1: "parseBody (example_post soup_query) = Parsed soup_query"
    using body_normalization [where req = "example_post soup_query"]
    by (simp add: Let_def example_post_def soup_query_def)
  note bad = body_normalization [where req = ?bad and s = \<open>js ''{"query": ''\<close>
      and cfg = example_config and st = Map.empty and now = 0 and up = ?up and sh = full_res,
      unfolded Let_def getClientKey_example_post example_store_after o]
  have rb: \<open>req_body ?bad = JStr (js ''{"query": '')\<close>
    by (simp add: example_post_def)
  have 2: \<open>parseBody ?bad = Parsed JNull
     \<and> handler example_config Map.empty 0 ?up ?bad full_res
       = \<lparr>response =
            \<lparr>statusCode = Some 400,
             headers = [(js ''Content-Type'', HStr (js ''application/json''))],
             emitted = [Res_json (JObj [(js ''error'', JStr (js ''Invalid JSON body.''))])]\<rparr>,
          store_after = [js ''10.0.0.1'' \<mapsto> [0]],
          events = [RateLimitCheck (js ''10.0.0.1'') 0], ending = Returned\<rparr>\<close>
    using bad p rb JSON_parse_bad by (simp add: full_res_def)
  note empty = body_normalization [where req = ?empty and chunks = "[]"
      and cfg = example_config and st = Map.empty and now = 0 and up = ?up and sh = full_res,
      unfolded Let_def k example_store_after o]
  have re: "req_body ?empty = JUndefined" "req_stream ?empty = Ends []"
    by (simp_all add: example_post_def)
  have 3: "parseBody ?empty = Parsed (JObj [])
     \<and> handler example_config Map.empty 0 ?up ?empty full_res
       = \<lparr>response =
            \<lparr>statusCode = Some 400,
             headers = [(js ''Content-Type'', HStr (js ''application/json''))],
             emitted = [Res_json (JObj [(js ''error'', JStr (js ''Query is required.''))])]\<rparr>,
          store_after = [js ''10.0.0.1'' \<mapsto> [0]],
          events = [RateLimitCheck (js ''10.0.0.1'') 0], ending = Returned\<rparr>"
    using empty p' re by (simp add: full_res_def)
  have evaluated: "statusCode (response (handler example_config Map.empty 0 ?up ?empty full_res))
      = Some 400"
    by code_simp
  show ?thesis using 1 2 3 evaluated by simp
qed

text \<open>
  Claim C8.  A request that passes the origin, method and rate-limit checks and whose
  body holds a query that is not empty, handled while the credential is missing (or
  empty), is answered with status 500, "Server misconfiguration: missing OpenAI API
  key.", and \<open>fetch\<close> is not called: the only call recorded is that of the rate
  limiter.
\<close>

theorem missing_credential:
  assumes "passes_checks cfg st now req" and "user_query req = Some q" and "\<not> has_api_key cfg"
  shows "handler cfg st now up req sh =
     \<lparr>response = respond sh (cors_res sh req) 500
        (error_payload (js ''Server misconfiguration: missing OpenAI API key.'')),
      store_after = snd (takeRateLimitSlot cfg st (getClientKey req) now),
      events = [RateLimitCheck (getClientKey req) now], ending = Returned\<rparr>"
  by (simp add: handler_rank [OF assms(1)] rank_no_key [OF assms(2,3)])

theorem missing_credential_witness:
  "handler (example_config\<lparr>OPENAI_API_KEY := None\<rparr>) Map.empty 0 (FetchRejects (Failure []))
       (example_post soup_query) full_res =
     \<lparr>response =
        \<lparr>statusCode = Some 500,
         headers = [(js ''Content-Type'', HStr (js ''application/json''))],
         emitted = [Res_json (JObj [(js ''error'',
                      JStr (js ''Server misconfiguration: missing OpenAI API key.''))])]\<rparr>,
      store_after = [js ''10.0.0.1'' \<mapsto> [0]],
      events = [RateLimitCheck (js ''10.0.0.1'') 0], ending = Returned\<rparr>"
proof -
  have k: "\<not> has_api_key (example_config\<lparr>OPENAI_API_KEY := None\<rparr>)"
    by (simp add: has_api_key_def)
  show ?thesis
    using missing_credential [OF passes_checks_example_post user_query_soup k,
        of "FetchRejects (Failure [])" full_res]
    unfolding getClientKey_example_post cors_res_example_post
    by (simp add: respond_def full_res_def fresh_res_def error_payload_def takeRateLimitSlot_def
        entries_of_def recent_of_def example_config_def)
qed

lemma call_upstream_fenced:
  assumes "response_ok status"
    and "JSON_parse b1 = Some d1" and "completion_content d1 = JStr (fenced t)"
    and "JSON_parse b2 = Some d2" and "completion_content d2 = JStr t"
    and "trim t \<noteq> []"
  shows "call_upstream sh rs (FetchResolves status (Inr b1))
     = call_upstream sh rs (FetchResolves status (Inr b2))"
proof -
  have f: "fenced t \<noteq> []" by (simp add: fenced_def js_def)
  have 1: "completion_text d1 = Inr (Some (fenced t))"
    using assms(3) by (simp add: completion_text_def trim_fenced)
  have 2: "completion_text d2 = Inr (Some (trim t))"
    using assms(5) by (simp add: completion_text_def)
  have "trim (strip_fences (fenced t)) = trim (strip_fences (trim t))"
    using cleaned_fenced [of t] by (simp add: trim_fenced)
  then have "validate_ranking sh rs (fenced t) = validate_ranking sh rs (trim t)"
    by (rule validate_ranking_cleaned)
  then show ?thesis
    by (simp add: call_upstream_validate [OF assms(1,2) 1 f]
        call_upstream_validate [OF assms(1,4) 2 assms(6)])
qed

text \<open>
  Claim C9, as amended.  For a completion text \<open>t\<close> that is not empty once trimmed, a
  successful upstream reply whose completion is \<open>t\<close> between code-fence markers is
  handled as the reply whose completion is \<open>t\<close> itself: the text handed to
  \<open>JSON.parse\<close> is the same, and so is the whole run of the handler.
\<close>

theorem fenced_completion:
  assumes "response_ok status"
    and "JSON_parse b1 = Some d1" and "completion_content d1 = JStr (fenced t)"
    and "JSON_parse b2 = Some d2" and "completion_content d2 = JStr t"
    and "trim t \<noteq> []"
  shows "trim (strip_fences (trim (fenced t))) = trim (strip_fences (trim t))
     \<and> handler cfg st now (FetchResolves status (Inr b1)) req sh
         = handler cfg st now (FetchResolves status (Inr b2)) req sh"
  using cleaned_fenced [of t] handler_upstream_cong [OF call_upstream_fenced [OF assms]]
  by simp

lemma spec_ranking_fenced:
  \<open>JSON_parse (chat_text (fenced (js ''{"primary":"R01","secondary":["R02","R03"]}'')))
     = Some (chat_data (fenced (js ''{"primary":"R01","secondary":["R02","R03"]}'')))\<close>
  by code_simp

lemma spec_ranking_plain:
  \<open>JSON_parse (chat_text (js ''{"primary":"R01","secondary":["R02","R03"]}''))
     = Some (chat_data (js ''{"primary":"R01","secondary":["R02","R03"]}''))\<close>
  by code_simp

lemma spec_ranking_not_blank: \<open>trim (js ''{"primary":"R01","secondary":["R02","R03"]}'') \<noteq> []\<close>
  by code_simp

theorem fenced_completion_witness:
  \<open>handler example_config Map.empty 0
       (chat_reply (fenced (js ''{"primary":"R01","secondary":["R02","R03"]}'')))
       (example_post soup_query) full_res
     = handler example_config Map.empty 0
         (chat_reply (js ''{"primary":"R01","secondary":["R02","R03"]}''))
         (example_post soup_query) full_res\<close>
proof -
  have ok: "response_ok 200" by (simp add: response_ok_def)
  show ?thesis
    unfolding chat_reply_def
    using fenced_completion [OF ok spec_ranking_fenced completion_content_chat_data
        spec_ranking_plain completion_content_chat_data spec_ranking_not_blank]
    by simp
qed

text \<open>
  Claim C9 as stated fails at the empty completion text: unfenced, it is answered with
  "ChatGPT returned an empty response." (line 192); between fence markers it passes
  that test, is stripped to the empty text, and is answered with "Unable to parse
  ChatGPT ranking response.".
\<close>

theorem fenced_completion_counterexample:
  "response (handler example_config Map.empty 0 (chat_reply (fenced []))
              (example_post soup_query) full_res)
     = \<lparr>statusCode = Some 502,
        headers = [(js ''Content-Type'', HStr (js ''application/json''))],
        emitted = [Res_json (JObj [(js ''error'',
                     JStr (js ''Unable to parse ChatGPT ranking response.''))])]\<rparr>
   \<and> response (handler example_config Map.empty 0 (chat_reply [])
              (example_post soup_query) full_res)
     = \<lparr>statusCode = Some 502,
        headers = [(js ''Content-Type'', HStr (js ''application/json''))],
        emitted = [Res_json (JObj [(js ''error'',
                     JStr (js ''ChatGPT returned an empty response.''))])]\<rparr>
   \<and> handler example_config Map.empty 0 (chat_reply (fenced [])) (example_post soup_query) full_res
     \<noteq> handler example_config Map.empty 0 (chat_reply []) (example_post soup_query) full_res"
proof -
  have 1: "response (handler example_config Map.empty 0 (chat_reply (fenced []))
              (example_post soup_query) full_res)
     = \<lparr>statusCode = Some 502,
        headers = [(js ''Content-Type'', HStr (js ''application/json''))],
        emitted = [Res_json (JObj [(js ''error'',
                     JStr (js ''Unable to parse ChatGPT ranking response.''))])]\<rparr>"
    by code_simp
  have 2: "response (handler example_config Map.empty 0 (chat_reply [])
              (example_post soup_query) full_res)
     = \<lparr>statusCode = Some 502,
        headers = [(js ''Content-Type'', HStr (js ''application/json''))],
        emitted = [Res_json (JObj [(js ''error'',
                     JStr (js ''ChatGPT returned an empty response.''))])]\<rparr>"
    by code_simp
  have "js ''Unable to parse ChatGPT ranking response.'' \<noteq> js ''ChatGPT returned an empty response.''"
    by (simp add: js_def)
  then have "response (handler example_config Map.empty 0 (chat_reply (fenced []))
              (example_post soup_query) full_res)
     \<noteq> response (handler example_config Map.empty 0 (chat_reply [])
              (example_post soup_query) full_res)"
    unfolding 1 2 by simp
  then show ?thesis using 1 2 by metis
qed

text \<open>
  Claim C10.  The text \<open>null\<close> is a JSON document, and \<open>JSON.parse\<close> gives \<open>null\<close> for
  it.  A request that passed the earlier checks and whose string body (or whose stream,
  not empty) parses to \<open>null\<close> is answered with status 400, "Invalid JSON body.".
\<close>

theorem null_body_invalid:
  "JSON_parse (js ''null'') = Some JNull
   \<and> (passes_checks cfg st now req \<and> JSON_parse s = Some JNull
        \<and> (req_body req = JStr s
            \<or> (\<not> (truthy (req_body req) \<and> is_object (req_body req)) \<and> \<not> is_string (req_body req)
                \<and> req_stream req = Ends chunks \<and> concat chunks = s \<and> s \<noteq> [])) \<longrightarrow>
        response (handler cfg st now up req sh)
          = respond sh (cors_res sh req) 400 (error_payload (js ''Invalid JSON body.''))
        \<and> ending (handler cfg st now up req sh) = Returned)"
proof -
  have 1: "JSON_parse (js ''null'') = Some JNull"
    by code_simp
  have 2: "passes_checks cfg st now req \<and> JSON_parse s = Some JNull
        \<and> (req_body req = JStr s
            \<or> (\<not> (truthy (req_body req) \<and> is_object (req_body req)) \<and> \<not> is_string (req_body req)
                \<and> req_stream req = Ends chunks \<and> concat chunks = s \<and> s \<noteq> [])) \<longrightarrow>
        response (handler cfg st now up req sh)
          = respond sh (cors_res sh req) 400 (error_payload (js ''Invalid JSON body.''))
        \<and> ending (handler cfg st now up req sh) = Returned"
  proof (intro impI)
    assume a: "passes_checks cfg st now req \<and> JSON_parse s = Some JNull
        \<and> (req_body req = JStr s
            \<or> (\<not> (truthy (req_body req) \<and> is_object (req_body req)) \<and> \<not> is_string (req_body req)
                \<and> req_stream req = Ends chunks \<and> concat chunks = s \<and> s \<noteq> []))"
    then have "parseBody req = Parsed JNull"
      by (cases "req_body req") (auto simp: parseBody_def parse_or_null_def Let_def)
    then show "response (handler cfg st now up req sh)
          = respond sh (cors_res sh req) 400 (error_payload (js ''Invalid JSON body.''))
        \<and> ending (handler cfg st now up req sh) = Returned"
      using a by (simp add: handler_rank rank_invalid)
  qed
  show ?thesis by (intro conjI) (rule 1, rule 2)
qed

theorem null_body_invalid_witness:
  "response (handler example_config Map.empty 0 (FetchRejects (Failure []))
              (example_post (JStr (js ''null''))) full_res)
     = \<lparr>statusCode = Some 400,
        headers = [(js ''Content-Type'', HStr (js ''application/json''))],
        emitted = [Res_json (JObj [(js ''error'', JStr (js ''Invalid JSON body.''))])]\<rparr>
   \<and> response (handler example_config Map.empty 0 (FetchRejects (Failure []))
              ((example_post JUndefined)\<lparr>req_stream := Ends [js ''nu'', js ''ll'']\<rparr>) full_res)
     = \<lparr>statusCode = Some 400,
        headers = [(js ''Content-Type'', HStr (js ''application/json''))],
        emitted = [Res_json (JObj [(js ''error'', JStr (js ''Invalid JSON body.''))])]\<rparr>"
proof -
  let ?up = "FetchRejects (Failure [])"
  let ?streamed = "(example_post JUndefined)\<lparr>req_stream := Ends [js ''nu'', js ''ll'']\<rparr>"
  note p = passes_checks_example
  have p': "passes_checks example_config Map.empty 0 ?streamed"
    by (simp add: passes_checks_stream p)
  have c: "cors_res full_res ?streamed = fresh_res"
    by (simp add: cors_res_stream cors_res_example_post)
  have n: "concat [js ''nu'', js ''ll''] = js ''null''" "js ''null'' \<noteq> []"
    by (simp_all add: js_def)
  note t = null_body_invalid [where cfg = example_config and st = Map.empty and now = 0
      and up = ?up and sh = full_res and s = "js ''null''"]
  have 1: "response (handler example_config Map.empty 0 ?up (example_post (JStr (js ''null''))) full_res)
      = respond full_res fresh_res 400 (error_payload (js ''Invalid JSON body.''))"
    using t [where req = "example_post (JStr (js ''null''))"] p
    by (simp add: cors_res_example_post) (simp add: example_post_def)
  have 2: "response (handler example_config Map.empty 0 ?up ?streamed full_res)
      = respond full_res fresh_res 400 (error_payload (js ''Invalid JSON body.''))"
    using t [where req = ?streamed and chunks = "[js ''nu'', js ''ll'']"] p' n
    by (simp add: c) (simp add: example_post_def)
  show ?thesis
    unfolding 1 2 by (simp add: respond_def full_res_def fresh_res_def error_payload_def)
qed


end
